theory Spec2Isabelle
  imports Main "HOL-Library.Word"
begin

unbundle bit_operations_syntax

section \<open>Errors\<close>

text \<open>
  Go errors as values. \<open>NotExist\<close> is an operating-system error for which
  \<open>os.IsNotExist\<close> holds, \<open>Failure\<close> any other error handed in by the environment,
  \<open>New\<close> and \<open>Wrap\<close> are \<open>errors.New\<close> and \<open>errors.Wrap\<close> of
  \<open>github.com/pkg/errors\<close>.
\<close>

datatype error =
    NotExist
  | Failure string
  | New string
  | Wrap error string

fun IsNotExist :: "error \<Rightarrow> bool" where
  "IsNotExist NotExist = True"
| "IsNotExist (Failure m) = False"
| "IsNotExist (New m) = False"
| "IsNotExist (Wrap e m) = False"

section \<open>The scanner (src/sync/scan.go)\<close>

subsection \<open>Data\<close>

text \<open>
  A \<open>[]byte\<close> is a byte list, or \<open>None\<close> for the nil slice: the scanner tests
  \<open>digest == nil\<close>. A \<open>time.Time\<close> is the instant it denotes, which is what
  \<open>Time.Equal\<close> compares.
\<close>

type_synonym bytes = "8 word list"
type_synonym slice = "bytes option"
type_synonym time = int

text \<open>\<open>os.FileInfo\<close>: \<open>Mode()\<close>, \<open>ModTime()\<close> and \<open>Size()\<close> (an int64).\<close>

record FileInfo =
  fi_Mode :: "32 word"
  fi_ModTime :: time
  fi_Size :: "64 word"

text \<open>The bits of \<open>os.FileMode\<close> the scanner looks at (package \<open>os\<close>).\<close>

definition ModeDir :: "32 word" where
  "ModeDir = 0x80000000"

definition ModeSymlink :: "32 word" where
  "ModeSymlink = 0x8000000"

definition ModeDevice :: "32 word" where
  "ModeDevice = 0x4000000"

definition ModeNamedPipe :: "32 word" where
  "ModeNamedPipe = 0x2000000"

definition ModeSocket :: "32 word" where
  "ModeSocket = 0x1000000"

definition ModeCharDevice :: "32 word" where
  "ModeCharDevice = 0x200000"

definition ModeIrregular :: "32 word" where
  "ModeIrregular = 0x80000"

definition ModeType :: "32 word" where
  "ModeType = ModeDir OR ModeSymlink OR ModeNamedPipe OR ModeSocket OR ModeDevice
     OR ModeCharDevice OR ModeIrregular"

text \<open>
  Modelled from the spec: the constant \<open>AnyExecutablePermission\<close> is declared outside
  src/; the spec says it "covers user/group/other execute permissions", that is 0111 octal.
\<close>

definition AnyExecutablePermission :: "32 word" where
  "AnyExecutablePermission = 0x49"

record CacheEntry =
  ce_Mode :: "32 word"
  ce_ModificationTime :: time
  ce_Size :: "64 word"
  ce_Digest :: slice

text \<open>\<open>Cache.Entries\<close>: a map from relative path to cache entry.\<close>

type_synonym Cache = "string \<rightharpoonup> CacheEntry"

datatype EntryKind = EntryKind_File | EntryKind_Directory | EntryKind_Symlink

datatype Entry =
  Entry (Kind: EntryKind) (Executable: bool) (Digest: slice) (Target: string)
    (Contents: "string \<Rightarrow> Entry option")

text \<open>
  What the scanner takes from outside src/sync/scan.go: the system calls, the two path
  joins of the standard library, the platform constant \<open>symlinksSupported\<close> and the
  ignorer's constructor. An opened file is the bytes that \<open>io.CopyBuffer\<close> will stream
  from it and the error, if any, that ends the copy.
\<close>

type_synonym OpenFile = "bytes \<times> error option"

record environment =
  os_Stat :: "string \<Rightarrow> error + FileInfo"
  os_Lstat :: "string \<Rightarrow> error + FileInfo"
  os_Open :: "string \<Rightarrow> error + OpenFile"
  os_Readlink :: "string \<Rightarrow> error + string"
  filesystem_DirectoryContents :: "string \<Rightarrow> error + string list"
  path_Join :: "string \<Rightarrow> string \<Rightarrow> string"
  filepath_Join :: "string \<Rightarrow> string \<Rightarrow> string"
  symlinksSupported :: bool
  newPathIgnorer :: "string list \<Rightarrow> error + (string \<Rightarrow> bool)"

text \<open>
  \<open>io.CopyBuffer(hasher, file, buffer)\<close>: the number of bytes copied (an int64) and
  the error.
\<close>

definition io_CopyBuffer :: "OpenFile \<Rightarrow> 64 word \<times> error option" where
  "io_CopyBuffer f = (word_of_nat (length (fst f)), snd f)"

text \<open>
  The fields of \<open>scanner\<close> that a scan only reads. A \<open>hash.Hash\<close> is used as
  Reset, the writes of one copy, Sum(nil): a function from the bytes written to the digest.
  The \<open>pathIgnorer\<close> is its method \<open>ignored\<close>. The buffer has no observable content.
\<close>

record scanner =
  root :: string
  hasher :: "bytes \<Rightarrow> slice"
  cache :: Cache
  pathIgnorer :: "string \<Rightarrow> bool"
  ignoreSize :: "64 word"

text \<open>
  What a scan changes: the map behind the pointer \<open>newCache\<close>, and the system calls made
  so far (most recent first).
\<close>

datatype syscall =
    Sys_Stat string
  | Sys_Lstat string
  | Sys_Open string
  | Sys_Readlink string
  | Sys_DirectoryContents string

record state =
  newCache :: Cache
  trace :: "syscall list"

definition called :: "syscall \<Rightarrow> state \<Rightarrow> state" where
  "called c st = st\<lparr>trace := c # trace st\<rparr>"

subsection \<open>scanner.file\<close>

text \<open>
  The local \<open>match\<close>: the input cache has an entry at the path, and its type bits,
  modification time and size are those of the current stat.
\<close>

definition cache_match :: "scanner \<Rightarrow> string \<Rightarrow> FileInfo \<Rightarrow> bool" where
  "cache_match s path info =
    (case cache s path of
       None \<Rightarrow> False
     | Some cached \<Rightarrow>
         (ce_Mode cached AND ModeType) = (fi_Mode info AND ModeType) \<and>
         fi_ModTime info = ce_ModificationTime cached \<and>
         ce_Size cached = fi_Size info)"

definition scanner_file ::
  "environment \<Rightarrow> scanner \<Rightarrow> string \<Rightarrow> FileInfo \<Rightarrow> state \<Rightarrow> (error + Entry) \<times> state" where
  "scanner_file env s path info st =
    (let mode = fi_Mode info;
         modificationTime = fi_ModTime info;
         size = fi_Size info;
         executable = (mode AND AnyExecutablePermission \<noteq> 0);
         digest = (if cache_match s path info
                   then (case cache s path of None \<Rightarrow> None | Some cached \<Rightarrow> ce_Digest cached)
                   else None);
         finish = (\<lambda>digest st.
           (Inr (Entry EntryKind_File executable digest [] Map.empty),
            st\<lparr>newCache := (newCache st)(path \<mapsto>
              \<lparr>ce_Mode = mode, ce_ModificationTime = modificationTime,
               ce_Size = size, ce_Digest = digest\<rparr>)\<rparr>))
     in case digest of
          Some d \<Rightarrow> finish (Some d) st
        | None \<Rightarrow>
            (let name = filepath_Join env (root s) path;
                 st1 = called (Sys_Open name) st
             in case os_Open env name of
                  Inl err \<Rightarrow> (Inl (Wrap err ''unable to open file''), st1)
                | Inr f \<Rightarrow>
                    (case io_CopyBuffer f of
                       (copied, Some err) \<Rightarrow>
                         (Inl (Wrap err ''unable to hash file contents''), st1)
                     | (copied, None) \<Rightarrow>
                         if copied \<noteq> size then (Inl (New ''hashed size mismatch''), st1)
                         else finish (hasher s (fst f)) st1)))"

subsection \<open>scanner.symlink\<close>

definition scanner_symlink ::
  "environment \<Rightarrow> scanner \<Rightarrow> string \<Rightarrow> state \<Rightarrow> (error + Entry) \<times> state" where
  "scanner_symlink env s path st =
    (let name = filepath_Join env (root s) path;
         st1 = called (Sys_Readlink name) st
     in case os_Readlink env name of
          Inl err \<Rightarrow> (Inl (Wrap err ''unable to read symlink target''), st1)
        | Inr target \<Rightarrow>
            if target = [] then (Inl (New ''empty symlink target read''), st1)
            else (Inr (Entry EntryKind_Symlink False None target Map.empty), st1))"

subsection \<open>scanner.directory\<close>

text \<open>
  The kind of a directory's content, from its mode: \<open>None\<close> is a content of
  unsupported type, which the loop skips.
\<close>

definition content_kind :: "FileInfo \<Rightarrow> EntryKind option" where
  "content_kind info =
    (if fi_Mode info AND ModeDir \<noteq> 0 then Some EntryKind_Directory
     else if fi_Mode info AND ModeSymlink \<noteq> 0 then Some EntryKind_Symlink
     else if fi_Mode info AND ModeType \<noteq> 0 then None
     else Some EntryKind_File)"

text \<open>
  The recursion follows the directory tree, whose depth the code does not bound: the
  first argument is the number of nested directory levels the scan may still enter, and
  \<open>None\<close> is a scan that needed more. \<open>directory_loop\<close> is the \<open>for\<close> loop over
  the directory's names, with the map \<open>contents\<close> built so far; \<open>continue\<close> is the
  call on the remaining names.
\<close>

fun scanner_directory ::
    "nat \<Rightarrow> environment \<Rightarrow> scanner \<Rightarrow> string \<Rightarrow> state \<Rightarrow> ((error + Entry) \<times> state) option"
  and directory_loop ::
    "nat \<Rightarrow> environment \<Rightarrow> scanner \<Rightarrow> string \<Rightarrow> string list \<Rightarrow> (string \<rightharpoonup> Entry) \<Rightarrow> state
      \<Rightarrow> ((error + (string \<rightharpoonup> Entry)) \<times> state) option"
where
  "scanner_directory 0 env s path st = None"
| "scanner_directory (Suc fuel) env s path st =
    (let name = filepath_Join env (root s) path;
         st1 = called (Sys_DirectoryContents name) st
     in case filesystem_DirectoryContents env name of
          Inl err \<Rightarrow> Some (Inl (Wrap err ''unable to read directory contents''), st1)
        | Inr directoryContents \<Rightarrow>
            (case directory_loop fuel env s path directoryContents Map.empty st1 of
               None \<Rightarrow> None
             | Some (Inl err, st2) \<Rightarrow> Some (Inl err, st2)
             | Some (Inr contents, st2) \<Rightarrow>
                 Some (Inr (Entry EntryKind_Directory False None [] contents), st2)))"
| "directory_loop fuel env s path [] contents st = Some (Inr contents, st)"
| "directory_loop fuel env s path (name # names) contents st =
    (let contentPath = path_Join env path name
     in if pathIgnorer s contentPath then directory_loop fuel env s path names contents st
        else
          (let st1 = called (Sys_Lstat (filepath_Join env (root s) contentPath)) st
           in case os_Lstat env (filepath_Join env (root s) contentPath) of
                Inl err \<Rightarrow>
                  if IsNotExist err then directory_loop fuel env s path names contents st1
                  else Some (Inl (Wrap err ''unable to stat directory content''), st1)
              | Inr info \<Rightarrow>
                  (case content_kind info of
                     None \<Rightarrow> directory_loop fuel env s path names contents st1
                   | Some kind \<Rightarrow>
                       if ignoreSize s > 0 \<and> kind = EntryKind_File \<and>
                          fi_Size info \<ge> ignoreSize s
                       then directory_loop fuel env s path names contents st1
                       else if kind = EntryKind_Symlink \<and> \<not> symlinksSupported env
                       then directory_loop fuel env s path names contents st1
                       else
                         (case (case kind of
                                  EntryKind_File \<Rightarrow> Some (scanner_file env s contentPath info st1)
                                | EntryKind_Symlink \<Rightarrow> Some (scanner_symlink env s contentPath st1)
                                | EntryKind_Directory \<Rightarrow>
                                    scanner_directory fuel env s contentPath st1) of
                            None \<Rightarrow> None
                          | Some (Inl err, st2) \<Rightarrow> Some (Inl err, st2)
                          | Some (Inr entry, st2) \<Rightarrow>
                              directory_loop fuel env s path names
                                (contents(name \<mapsto> entry)) st2))))"

subsection \<open>Scan\<close>

text \<open>
  The result is Go's triple: \<open>Inl err\<close> is \<open>(nil, nil, err)\<close>, \<open>Inr (entry, cache)\<close>
  is \<open>(entry, cache, nil)\<close> with \<open>None\<close> for the nil entry; beside it, the system
  calls the scan made. A nil input cache is \<open>None\<close>.
\<close>

definition Scan ::
  "nat \<Rightarrow> environment \<Rightarrow> string \<Rightarrow> (bytes \<Rightarrow> slice) \<Rightarrow> Cache option \<Rightarrow> string list \<Rightarrow> 64 word
    \<Rightarrow> ((error + Entry option \<times> Cache) \<times> syscall list) option" where
  "Scan fuel env root' hasher' cache' ignores ignoreSize' =
    (let cache1 = (case cache' of None \<Rightarrow> Map.empty | Some c \<Rightarrow> c)
     in case newPathIgnorer env ignores of
          Inl err \<Rightarrow> Some (Inl (Wrap err ''unable to create ignorer''), [])
        | Inr pathIgnorer' \<Rightarrow>
            (let s = \<lparr>root = root', hasher = hasher', cache = cache1,
                      pathIgnorer = pathIgnorer', ignoreSize = ignoreSize'\<rparr>;
                 st = called (Sys_Stat root') \<lparr>newCache = Map.empty, trace = []\<rparr>
             in case os_Stat env root' of
                  Inl err \<Rightarrow>
                    if IsNotExist err then Some (Inr (None, newCache st), trace st)
                    else Some (Inl (Wrap err ''unable to probe snapshot root''), trace st)
                | Inr info \<Rightarrow>
                    if fi_Mode info AND ModeDir \<noteq> 0 then
                      (case scanner_directory fuel env s [] st of
                         None \<Rightarrow> None
                       | Some (Inl err, st') \<Rightarrow> Some (Inl err, trace st')
                       | Some (Inr rootEntry, st') \<Rightarrow>
                           Some (Inr (Some rootEntry, newCache st'), trace st'))
                    else if fi_Mode info AND ModeType \<noteq> 0 then
                      Some (Inl (New ''invalid snapshot root type''), trace st)
                    else
                      (case scanner_file env s [] info st of
                         (Inl err, st') \<Rightarrow> Some (Inl err, trace st')
                       | (Inr rootEntry, st') \<Rightarrow>
                           Some (Inr (Some rootEntry, newCache st'), trace st'))))"


section \<open>URLs (package url)\<close>

text \<open>
  The enumeration \<open>Protocol\<close> is generated from a protocol buffer: besides its three
  names it holds every other 32-bit number, here \<open>Protocol_Unknown\<close>.
\<close>

datatype Protocol = Protocol_Local | Protocol_SSH | Protocol_Custom | Protocol_Unknown int

record URL =
  Protocol :: Protocol
  Username :: string
  Hostname :: string
  Port :: "32 word"
  Path :: string

subsection \<open>URL.Format\<close>

text \<open>The verb \<open>%d\<close> of \<open>fmt.Sprintf\<close> on an unsigned number.\<close>

definition digit_char :: "nat \<Rightarrow> char" where
  "digit_char d = ''0123456789'' ! d"

fun decimal :: "nat \<Rightarrow> string" where
  "decimal n = (if n < 10 then [digit_char n] else decimal (n div 10) @ [digit_char (n mod 10)])"

definition formatLocal :: "URL \<Rightarrow> string" where
  "formatLocal u = Path u"

definition formatSSH :: "URL \<Rightarrow> string" where
  "formatSSH u =
    (let result = Hostname u;
         result = (if Username u \<noteq> [] then Username u @ ''@'' @ result else result);
         result = (if Port u \<noteq> 0 then result @ '':'' @ decimal (unat (Port u)) else result);
         result = result @ '':'' @ Path u
     in result)"

definition formatCustom :: "URL \<Rightarrow> string" where
  "formatCustom u = Path u"

text \<open>\<open>None\<close> is the panic on a protocol that has no name.\<close>

definition Format :: "URL \<Rightarrow> string option" where
  "Format u =
    (if Protocol u = Protocol_Local then Some (formatLocal u)
     else if Protocol u = Protocol_SSH then Some (formatSSH u)
     else if Protocol u = Protocol_Custom then Some (formatCustom u)
     else None)"

subsection \<open>Parse\<close>

definition is_letter :: "char \<Rightarrow> bool" where
  "is_letter c = (c \<in> set ''ABCDEFGHIJKLMNOPQRSTUVWXYZabcdefghijklmnopqrstuvwxyz'')"

definition is_digit :: "char \<Rightarrow> bool" where
  "is_digit c = (c \<in> set ''0123456789'')"

text \<open>The grammar \<open>[A-Za-z][A-Za-z0-9+.\-]*\<close> of a scheme.\<close>

definition is_scheme :: "string \<Rightarrow> bool" where
  "is_scheme xs =
    (case xs of
       [] \<Rightarrow> False
     | c # cs \<Rightarrow> is_letter c \<and> (\<forall>d \<in> set cs. is_letter d \<or> is_digit d \<or> d \<in> set ''+.-''))"

text \<open>The text before the first \<open>://\<close> and the text after it.\<close>

fun split_scheme :: "string \<Rightarrow> (string \<times> string) option" where
  "split_scheme [] = None"
| "split_scheme (c # cs) =
    (if take 3 (c # cs) = ''://'' then Some ([], drop 3 (c # cs))
     else map_option (\<lambda>(a, b). (c # a, b)) (split_scheme cs))"

text \<open>The text before the first occurrence of a character and the text after it.\<close>

fun split_first :: "char \<Rightarrow> string \<Rightarrow> (string \<times> string) option" where
  "split_first d [] = None"
| "split_first d (c # cs) =
    (if c = d then Some ([], cs) else map_option (\<lambda>(a, b). (c # a, b)) (split_first d cs))"

definition parse_decimal :: "string \<Rightarrow> nat" where
  "parse_decimal cs = foldl (\<lambda>n c. 10 * n + (of_char c - 48)) 0 cs"

text \<open>
  Step 5 of the spec's algorithm: the tail after the host begins with a port when its
  text before the next colon is non-empty, all decimal digits, and at most 65535.
\<close>

definition port_and_path :: "string \<Rightarrow> 32 word \<times> string" where
  "port_and_path tail =
    (case split_first CHR '':'' tail of
       None \<Rightarrow> (0, tail)
     | Some (digits, rest) \<Rightarrow>
         if digits \<noteq> [] \<and> (\<forall>c \<in> set digits. is_digit c) \<and> parse_decimal digits \<le> 65535
         then (word_of_nat (parse_decimal digits), rest)
         else (0, tail))"

text \<open>
  Step 2 of the spec's algorithm: the text before the first \<open>@\<close> is the user and the
  text after it the host and path; without an \<open>@\<close> there is no user.
\<close>

definition user_split :: "string \<Rightarrow> string \<times> string" where
  "user_split raw =
    (case split_first CHR ''@'' raw of None \<Rightarrow> ([], raw) | Some (u, r) \<Rightarrow> (u, r))"

text \<open>
  Modelled from the spec: \<open>Parse\<close> is declared outside src/ (src/ holds only its tests).
  This is section 4.1 of the spec, step by step, with \<open>None\<close> for a failure: (6) the
  empty input fails; (1) an input that contains \<open>://\<close> is Custom, with the whole input
  as its path, when the text before \<open>://\<close> is a scheme, and fails otherwise; (2) the
  text before the first \<open>@\<close> is the user; (3) without a colon in the rest the URL is
  Local, with the whole input as its path; (4) the host is the text before the first
  colon, and must not be empty; (5) then the optional port, then the path. Step 3 is read
  together with the first example of section 6 of the spec, which the test TestParsePath
  states too (\<open>/this/is/a:path\<close> is Local): a colon that follows a slash ends no host.
\<close>

definition Parse :: "string \<Rightarrow> URL option" where
  "Parse raw =
    (if raw = [] then None
     else case split_scheme raw of
       Some (scheme, rest) \<Rightarrow>
         if is_scheme scheme
         then Some \<lparr>Protocol = Protocol_Custom, Username = [], Hostname = [], Port = 0,
                     Path = raw\<rparr>
         else None
     | None \<Rightarrow>
         (let (user, host_and_path) = user_split raw
          in case split_first CHR '':'' host_and_path of
               None \<Rightarrow>
                 Some \<lparr>Protocol = Protocol_Local, Username = [], Hostname = [], Port = 0,
                       Path = raw\<rparr>
             | Some (host, tail) \<Rightarrow>
                 if CHR ''/'' \<in> set host
                 then Some \<lparr>Protocol = Protocol_Local, Username = [], Hostname = [], Port = 0,
                             Path = raw\<rparr>
                 else if host = [] then None
                 else (case port_and_path tail of
                         (port, path) \<Rightarrow>
                           Some \<lparr>Protocol = Protocol_SSH, Username = user, Hostname = host,
                                 Port = port, Path = path\<rparr>)))"

section \<open>Connecting to an endpoint (src/session/connect.go)\<close>

text \<open>
  What \<open>connect\<close> takes from outside its file: the two endpoint constructors, the
  agent's dialer with its mode \<open>ModeEndpoint\<close>, and the generated method \<open>String\<close> of
  \<open>Protocol\<close> that the verb \<open>%s\<close> calls. Versions, ignore specifications,
  connections and endpoints are left open.
\<close>

record ('v, 'i, 'm, 'c, 'e) session_environment =
  newLocalEndpoint :: "string \<Rightarrow> 'v \<Rightarrow> string \<Rightarrow> 'i \<Rightarrow> bool \<Rightarrow> error + 'e"
  agent_DialSSH :: "URL \<Rightarrow> string \<Rightarrow> 'm \<Rightarrow> error + 'c"
  agent_ModeEndpoint :: 'm
  newRemoteEndpoint :: "'c \<Rightarrow> string \<Rightarrow> 'v \<Rightarrow> string \<Rightarrow> 'i \<Rightarrow> bool \<Rightarrow> error + 'e"
  Protocol_String :: "Protocol \<Rightarrow> string"

text \<open>The calls \<open>connect\<close> makes, in the order it makes them.\<close>

datatype session_call = Call_newLocalEndpoint | Call_DialSSH | Call_newRemoteEndpoint

definition connect ::
  "('v, 'i, 'm, 'c, 'e) session_environment \<Rightarrow> string \<Rightarrow> 'v \<Rightarrow> URL \<Rightarrow> 'i \<Rightarrow> bool \<Rightarrow> string
    \<Rightarrow> (error + 'e) \<times> session_call list" where
  "connect env session version url ignores alpha prompter =
    (if Protocol url = Protocol_Local then
       (case newLocalEndpoint env session version (Path url) ignores alpha of
          Inl err \<Rightarrow> (Inl (Wrap err ''unable to create local endpoint''), [Call_newLocalEndpoint])
        | Inr endpoint \<Rightarrow> (Inr endpoint, [Call_newLocalEndpoint]))
     else if Protocol url = Protocol_SSH then
       (case agent_DialSSH env url prompter (agent_ModeEndpoint env) of
          Inl err \<Rightarrow> (Inl (Wrap err ''unable to connect to SSH remote''), [Call_DialSSH])
        | Inr connection \<Rightarrow>
            (case newRemoteEndpoint env connection session version (Path url) ignores alpha of
               Inl err \<Rightarrow>
                 (Inl (Wrap err ''unable to create remote endpoint''),
                  [Call_DialSSH, Call_newRemoteEndpoint])
             | Inr endpoint \<Rightarrow> (Inr endpoint, [Call_DialSSH, Call_newRemoteEndpoint])))
     else (Inl (New (''unknown protocol: '' @ Protocol_String env (Protocol url))), []))"

section \<open>A small file system\<close>

text \<open>
  The concrete inputs of the examples below. The root \<open>/r\<close> is a directory that lists
  \<open>a\<close> (a regular file of two bytes), \<open>gone\<close> (which has vanished by the time it is
  examined), \<open>big\<close> (a regular file whose lstat reports 100 bytes and which yields
  three when read) and \<open>d\<close> (a directory holding the regular file \<open>x\<close> of three
  bytes). The root \<open>/q\<close> is a directory that lists \<open>gone\<close>, \<open>locked\<close> (whose lstat
  fails with a permission error) and \<open>a\<close>. \<open>/f\<close> is a regular file of two bytes;
  \<open>/locked\<close> cannot be examined. The joins put a slash between non-empty parts. The
  ignorer's constructor rejects a list that holds the unterminated pattern \<open>[\<close> and
  otherwise ignores the paths that are in the list.
\<close>

definition example_join :: "string \<Rightarrow> string \<Rightarrow> string" where
  "example_join a b = (if a = [] then b else if b = [] then a else a @ ''/'' @ b)"

definition example_Stat :: "string \<Rightarrow> error + FileInfo" where
  "example_Stat name =
    (if name = ''/r'' then Inr \<lparr>fi_Mode = ModeDir OR 0x1ED, fi_ModTime = 3, fi_Size = 4096\<rparr>
     else if name = ''/q'' then Inr \<lparr>fi_Mode = ModeDir OR 0x1ED, fi_ModTime = 4, fi_Size = 4096\<rparr>
     else if name = ''/f'' then Inr \<lparr>fi_Mode = 0x1A4, fi_ModTime = 7, fi_Size = 2\<rparr>
     else if name = ''/locked'' then Inl (Failure ''permission denied'')
     else Inl NotExist)"

definition example_Lstat :: "string \<Rightarrow> error + FileInfo" where
  "example_Lstat name =
    (if name = ''/r/a'' then Inr \<lparr>fi_Mode = 0x1ED, fi_ModTime = 5, fi_Size = 2\<rparr>
     else if name = ''/r/big'' then Inr \<lparr>fi_Mode = 0x1A4, fi_ModTime = 6, fi_Size = 100\<rparr>
     else if name = ''/r/d'' then Inr \<lparr>fi_Mode = ModeDir OR 0x1ED, fi_ModTime = 8, fi_Size = 4096\<rparr>
     else if name = ''/r/d/x'' then Inr \<lparr>fi_Mode = 0x1A4, fi_ModTime = 9, fi_Size = 3\<rparr>
     else if name = ''/q/locked'' then Inl (Failure ''permission denied'')
     else Inl NotExist)"

definition example_Open :: "string \<Rightarrow> error + OpenFile" where
  "example_Open name =
    (if name = ''/r/a'' then Inr ([1, 2], None)
     else if name = ''/r/d/x'' then Inr ([7, 8, 9], None)
     else if name = ''/f'' then Inr ([4, 5], None)
     else if name = ''/r/big'' then Inr ([6, 7, 8], None)
     else Inl NotExist)"

definition example_DirectoryContents :: "string \<Rightarrow> error + string list" where
  "example_DirectoryContents name =
    (if name = ''/r'' then Inr [''a'', ''gone'', ''big'', ''d'']
     else if name = ''/r/d'' then Inr [''x'']
     else if name = ''/q'' then Inr [''gone'', ''locked'', ''a'']
     else Inl NotExist)"

definition example_newPathIgnorer :: "string list \<Rightarrow> error + (string \<Rightarrow> bool)" where
  "example_newPathIgnorer ignores =
    (if ''['' \<in> set ignores then Inl (Failure ''syntax error in pattern'')
     else Inr (\<lambda>path. path \<in> set ignores))"

definition example_env :: environment where
  "example_env =
    \<lparr>os_Stat = example_Stat, os_Lstat = example_Lstat, os_Open = example_Open,
     os_Readlink = (\<lambda>name. Inl NotExist),
     filesystem_DirectoryContents = example_DirectoryContents,
     path_Join = example_join, filepath_Join = example_join,
     symlinksSupported = True, newPathIgnorer = example_newPathIgnorer\<rparr>"

text \<open>A stand-in for a hash: the reversed input.\<close>

definition example_hasher :: "bytes \<Rightarrow> slice" where
  "example_hasher data = Some (rev data)"

section \<open>Notions used to state and prove the properties\<close>

text \<open>
  One turn of the loop of \<open>scanner.directory\<close>, for one name: the loop goes on with
  the next name (\<open>continue\<close>), returns an error, or adds an entry under the name.
  \<open>Unfinished\<close> is a nested directory that needed more levels than allowed.
\<close>

datatype outcome = Continue state | Return error state | Insert Entry state | Unfinished

definition directory_content ::
  "nat \<Rightarrow> environment \<Rightarrow> scanner \<Rightarrow> string \<Rightarrow> string \<Rightarrow> state \<Rightarrow> outcome" where
  "directory_content fuel env s path name st =
    (let contentPath = path_Join env path name
     in if pathIgnorer s contentPath then Continue st
        else
          (let st1 = called (Sys_Lstat (filepath_Join env (root s) contentPath)) st
           in case os_Lstat env (filepath_Join env (root s) contentPath) of
                Inl err \<Rightarrow>
                  if IsNotExist err then Continue st1
                  else Return (Wrap err ''unable to stat directory content'') st1
              | Inr info \<Rightarrow>
                  (case content_kind info of
                     None \<Rightarrow> Continue st1
                   | Some kind \<Rightarrow>
                       if ignoreSize s > 0 \<and> kind = EntryKind_File \<and>
                          fi_Size info \<ge> ignoreSize s
                       then Continue st1
                       else if kind = EntryKind_Symlink \<and> \<not> symlinksSupported env
                       then Continue st1
                       else
                         (case (case kind of
                                  EntryKind_File \<Rightarrow> Some (scanner_file env s contentPath info st1)
                                | EntryKind_Symlink \<Rightarrow> Some (scanner_symlink env s contentPath st1)
                                | EntryKind_Directory \<Rightarrow>
                                    scanner_directory fuel env s contentPath st1) of
                            None \<Rightarrow> Unfinished
                          | Some (Inl err, st2) \<Rightarrow> Return err st2
                          | Some (Inr entry, st2) \<Rightarrow> Insert entry st2))))"

text \<open>The entry reached from an entry along a list of names, through \<open>Contents\<close>.\<close>

fun entry_at :: "Entry \<Rightarrow> string list \<Rightarrow> Entry option" where
  "entry_at e [] = Some e"
| "entry_at e (name # names) =
    (case Contents e name of None \<Rightarrow> None | Some c \<Rightarrow> entry_at c names)"

text \<open>
  The relative path of the entry reached along the names, as the scanner composes it:
  one \<open>path.Join\<close> per level, from the path of the entry the names start at.
\<close>

definition relative_path :: "environment \<Rightarrow> string \<Rightarrow> string list \<Rightarrow> string" where
  "relative_path env path names = foldl (path_Join env) path names"

text \<open>The state a scan starts from, before its first system call.\<close>

definition initial :: state where
  "initial = \<lparr>newCache = Map.empty, trace = []\<rparr>"

text \<open>
  The cached digest can be reused: the source's \<open>match\<close> holds and the digest of the
  cached entry is not nil.
\<close>

definition reusable :: "scanner \<Rightarrow> string \<Rightarrow> FileInfo \<Rightarrow> bool" where
  "reusable s path info =
    (cache_match s path info \<and>
     (\<exists>cached d. cache s path = Some cached \<and> ce_Digest cached = Some d))"

text \<open>
  Input caches for the root file \<open>/f\<close>, both with the mode, time and size of its
  current stat: one holds a digest that is not the hash of the file's bytes, one holds
  the nil digest. Beside them, the scanner that \<open>Scan\<close> builds for \<open>/f\<close> when
  nothing is ignored, and the stat of \<open>/f\<close>.
\<close>

definition example_stale_cache :: Cache where
  "example_stale_cache =
    [[] \<mapsto> \<lparr>ce_Mode = 0x1A4, ce_ModificationTime = 7, ce_Size = 2, ce_Digest = Some [9]\<rparr>]"

definition example_nil_digest_cache :: Cache where
  "example_nil_digest_cache =
    [[] \<mapsto> \<lparr>ce_Mode = 0x1A4, ce_ModificationTime = 7, ce_Size = 2, ce_Digest = None\<rparr>]"

definition example_scanner :: "Cache \<Rightarrow> scanner" where
  "example_scanner c =
    \<lparr>root = ''/f'', hasher = example_hasher, cache = c, pathIgnorer = (\<lambda>path. False),
     ignoreSize = 0\<rparr>"

definition example_info :: FileInfo where
  "example_info = \<lparr>fi_Mode = 0x1A4, fi_ModTime = 7, fi_Size = 2\<rparr>"

text \<open>
  Stand-ins for the collaborators of \<open>connect\<close>: endpoints and connections are
  strings that say how they were made.
\<close>

definition example_Protocol_String :: "Protocol \<Rightarrow> string" where
  "example_Protocol_String p =
    (case p of
       Protocol_Local \<Rightarrow> ''Local''
     | Protocol_SSH \<Rightarrow> ''SSH''
     | Protocol_Custom \<Rightarrow> ''Custom''
     | Protocol_Unknown n \<Rightarrow> ''?'')"

definition example_session_env :: "(nat, string list, string, string, string) session_environment" where
  "example_session_env =
    \<lparr>newLocalEndpoint = (\<lambda>session version path ignores alpha. Inr (''local '' @ path)),
     agent_DialSSH = (\<lambda>url prompter mode.
        if Hostname url = ''down'' then Inl (Failure ''connection refused'')
        else Inr (mode @ '' '' @ Hostname url)),
     agent_ModeEndpoint = ''endpoint'',
     newRemoteEndpoint = (\<lambda>connection session version path ignores alpha.
        Inr (''remote '' @ connection @ '' '' @ path)),
     Protocol_String = example_Protocol_String\<rparr>"

definition example_url :: "Protocol \<Rightarrow> URL" where
  "example_url p =
    \<lparr>Protocol = p, Username = ''user'', Hostname = ''host'', Port = 22, Path = ''/srv''\<rparr>"

text \<open>
  What a scan of a directory tree records in the new cache for a relative path, if it
  records anything: the path is not ignored, its lstat shows a regular file that the size
  limit lets through, and \<open>scanner.file\<close> succeeds on it.
\<close>

definition file_record :: "environment \<Rightarrow> scanner \<Rightarrow> string \<Rightarrow> CacheEntry option" where
  "file_record env s p =
    (if pathIgnorer s p then None
     else case os_Lstat env (filepath_Join env (root s) p) of
       Inl err \<Rightarrow> None
     | Inr info \<Rightarrow>
         if content_kind info \<noteq> Some EntryKind_File then None
         else if ignoreSize s > 0 \<and> fi_Size info \<ge> ignoreSize s then None
         else (case fst (scanner_file env s p info initial) of
                 Inl err \<Rightarrow> None
               | Inr e \<Rightarrow>
                   Some \<lparr>ce_Mode = fi_Mode info, ce_ModificationTime = fi_ModTime info,
                         ce_Size = fi_Size info, ce_Digest = Digest e\<rparr>))"

text \<open>
  Cache coherence below an entry that stands at the relative path \<open>p\<close>: every File entry
  reached from it has, at its own relative path, a successful lstat and a cache entry
  with the mode, time and size of that lstat and with the entry's digest.
\<close>

definition files_ok :: "environment \<Rightarrow> scanner \<Rightarrow> Cache \<Rightarrow> string \<Rightarrow> Entry \<Rightarrow> bool" where
  "files_ok env s c p e =
    (\<forall>names e'. entry_at e names = Some e' \<longrightarrow> Kind e' = EntryKind_File \<longrightarrow>
       (\<exists>info. os_Lstat env (filepath_Join env (root s) (relative_path env p names)) = Inr info \<and>
          c (relative_path env p names) =
            Some \<lparr>ce_Mode = fi_Mode info, ce_ModificationTime = fi_ModTime info,
                  ce_Size = fi_Size info, ce_Digest = Digest e'\<rparr>))"

text \<open>The relative paths of the File entries reached from an entry that stands at \<open>p\<close>.\<close>

definition file_paths :: "environment \<Rightarrow> string \<Rightarrow> Entry \<Rightarrow> string set" where
  "file_paths env p e =
    {relative_path env p names | names e'.
       entry_at e names = Some e' \<and> Kind e' = EntryKind_File}"

text \<open>The state a turn of the loop leaves, when it ends.\<close>

fun outcome_state :: "outcome \<Rightarrow> state option" where
  "outcome_state (Continue st) = Some st"
| "outcome_state (Return err st) = Some st"
| "outcome_state (Insert e st) = Some st"
| "outcome_state Unfinished = None"

text \<open>
  The scan of \<open>/r\<close> with a size limit of 50 bytes, no ignores and the input cache
  \<open>example_old_cache\<close> defined below: the snapshot, the new
  cache and the system calls made. The file \<open>big\<close> is over the limit and \<open>gone\<close> has
  vanished.
\<close>

definition example_snapshot :: Entry where
  "example_snapshot =
    Entry EntryKind_Directory False None []
      [''a'' \<mapsto> Entry EntryKind_File True (Some [2, 1]) [] Map.empty,
       ''d'' \<mapsto> Entry EntryKind_Directory False None []
                 [''x'' \<mapsto> Entry EntryKind_File False (Some [9, 8, 7]) [] Map.empty]]"

definition example_newCache :: Cache where
  "example_newCache =
    [''a'' \<mapsto> \<lparr>ce_Mode = 0x1ED, ce_ModificationTime = 5, ce_Size = 2,
                ce_Digest = Some [2, 1]\<rparr>,
     ''d/x'' \<mapsto> \<lparr>ce_Mode = 0x1A4, ce_ModificationTime = 9, ce_Size = 3,
                  ce_Digest = Some [9, 8, 7]\<rparr>]"

definition example_trace :: "syscall list" where
  "example_trace =
    [Sys_Open ''/r/d/x'', Sys_Lstat ''/r/d/x'', Sys_DirectoryContents ''/r/d'',
     Sys_Lstat ''/r/d'', Sys_Lstat ''/r/big'', Sys_Lstat ''/r/gone'', Sys_Open ''/r/a'',
     Sys_Lstat ''/r/a'', Sys_DirectoryContents ''/r'', Sys_Stat ''/r'']"

text \<open>
  An outcome without its state, and the entry that a turn of the loop adds under a name
  when it starts from the initial state. The state a turn starts from has no part in
  what it adds (lemma \<open>directory_content_forget\<close> below).
\<close>

fun forget :: "outcome \<Rightarrow> outcome" where
  "forget (Continue st) = Continue initial"
| "forget (Return err st) = Return err initial"
| "forget (Insert e st) = Insert e initial"
| "forget Unfinished = Unfinished"

definition inserted :: "nat \<Rightarrow> environment \<Rightarrow> scanner \<Rightarrow> string \<Rightarrow> string \<Rightarrow> Entry option" where
  "inserted fuel env s path name =
    (case directory_content fuel env s path name initial of
       Insert e st \<Rightarrow> Some e
     | Continue st \<Rightarrow> None
     | Return err st \<Rightarrow> None
     | Unfinished \<Rightarrow> None)"

text \<open>
  An input cache for the scan of \<open>/r\<close>, with entries for the vanished \<open>gone\<close>, for
  \<open>big\<close>, which is over the size limit, and for the directory \<open>d\<close>.
\<close>

definition example_old_cache :: Cache where
  "example_old_cache =
    [''gone'' \<mapsto> \<lparr>ce_Mode = 0x1A4, ce_ModificationTime = 2, ce_Size = 4,
                   ce_Digest = Some [1, 1, 1, 1]\<rparr>,
     ''big'' \<mapsto> \<lparr>ce_Mode = 0x1A4, ce_ModificationTime = 6, ce_Size = 100,
                  ce_Digest = Some [2, 2]\<rparr>,
     ''d'' \<mapsto> \<lparr>ce_Mode = 0x1A4, ce_ModificationTime = 8, ce_Size = 4096,
                ce_Digest = Some [3, 3]\<rparr>]"

text \<open>
  The error that a system call of a directory scan ends the scan with, if it does: an
  lstat that fails other than by not-found, a file that cannot be opened or read or whose
  byte count is not the size its lstat reported, a link that cannot be read or is empty,
  a directory that cannot be listed.
\<close>

fun call_error :: "environment \<Rightarrow> syscall \<Rightarrow> error option" where
  "call_error env (Sys_Stat name) = None"
| "call_error env (Sys_Lstat name) =
    (case os_Lstat env name of
       Inl err \<Rightarrow>
         if IsNotExist err then None else Some (Wrap err ''unable to stat directory content'')
     | Inr info \<Rightarrow> None)"
| "call_error env (Sys_Open name) =
    (case os_Open env name of
       Inl err \<Rightarrow> Some (Wrap err ''unable to open file'')
     | Inr f \<Rightarrow>
         (case snd f of
            Some err \<Rightarrow> Some (Wrap err ''unable to hash file contents'')
          | None \<Rightarrow>
              (case os_Lstat env name of
                 Inl err \<Rightarrow> None
               | Inr info \<Rightarrow>
                   if word_of_nat (length (fst f)) \<noteq> fi_Size info
                   then Some (New ''hashed size mismatch'') else None)))"
| "call_error env (Sys_Readlink name) =
    (case os_Readlink env name of
       Inl err \<Rightarrow> Some (Wrap err ''unable to read symlink target'')
     | Inr target \<Rightarrow> if target = [] then Some (New ''empty symlink target read'') else None)"
| "call_error env (Sys_DirectoryContents name) =
    (case filesystem_DirectoryContents env name of
       Inl err \<Rightarrow> Some (Wrap err ''unable to read directory contents'')
     | Inr names \<Rightarrow> None)"

text \<open>
  A result and the trace it comes with: a success has made no call that fails; an error
  is the error of the last call made, and no call before it fails.
\<close>

definition fail_fast :: "environment \<Rightarrow> error + 'a \<Rightarrow> syscall list \<Rightarrow> bool" where
  "fail_fast env r tr =
    (case r of
       Inr x \<Rightarrow> (\<forall>c \<in> set tr. call_error env c = None)
     | Inl err \<Rightarrow>
         (\<exists>c tr'. tr = c # tr' \<and> call_error env c = Some err \<and>
            (\<forall>c \<in> set tr'. call_error env c = None)))"


text \<open>
  The URLs that survive formatting and parsing again: every Local and Custom URL, and
  an SSH URL unless it has no user and an \<open>@\<close> in its host or path (the text before that
  \<open>@\<close> would be read as the user), or has the port 0 and a path that begins with a port
  (which would be read as the port).
\<close>

definition round_trips :: "URL \<Rightarrow> bool" where
  "round_trips u =
    (Protocol u = Protocol_SSH \<longrightarrow>
       (Username u = [] \<longrightarrow> CHR ''@'' \<notin> set (Hostname u) \<union> set (Path u)) \<and>
       (Port u = 0 \<longrightarrow> port_and_path (Path u) = (0, Path u)))"

text \<open>The names of the files that a trace opens.\<close>

definition opens :: "syscall list \<Rightarrow> string set" where
  "opens tr = {name. Sys_Open name \<in> set tr}"

text \<open>
  The names of the files below an entry that stands at \<open>p\<close> for which the input cache
  offers no digest to reuse: the File entries reached from it whose lstat, at their own
  relative path, is not \<open>reusable\<close>.
\<close>

definition hashed_files :: "environment \<Rightarrow> scanner \<Rightarrow> string \<Rightarrow> Entry \<Rightarrow> string set" where
  "hashed_files env s p e =
    {filepath_Join env (root s) (relative_path env p names) | names e' info.
       entry_at e names = Some e' \<and> Kind e' = EntryKind_File \<and>
       os_Lstat env (filepath_Join env (root s) (relative_path env p names)) = Inr info \<and>
       \<not> reusable s (relative_path env p names) info}"

text \<open>
  A second scan of \<open>/r\<close> with the size limit 50 and no ignores, from an input cache that
  knows \<open>a\<close> with its current type, time and size (and other permission bits) and
  \<open>d/x\<close> with an older time: the digest 9 of \<open>a\<close> is reused and \<open>a\<close> is not opened,
  \<open>d/x\<close> is opened and hashed again.
\<close>

definition example_warm_cache :: Cache where
  "example_warm_cache =
    [''a'' \<mapsto> \<lparr>ce_Mode = 0x1A4, ce_ModificationTime = 5, ce_Size = 2, ce_Digest = Some [9]\<rparr>,
     ''d/x'' \<mapsto> \<lparr>ce_Mode = 0x1A4, ce_ModificationTime = 8, ce_Size = 3,
                  ce_Digest = Some [1]\<rparr>]"

definition example_warm_snapshot :: Entry where
  "example_warm_snapshot =
    Entry EntryKind_Directory False None []
      [''a'' \<mapsto> Entry EntryKind_File True (Some [9]) [] Map.empty,
       ''d'' \<mapsto> Entry EntryKind_Directory False None []
                 [''x'' \<mapsto> Entry EntryKind_File False (Some [9, 8, 7]) [] Map.empty]]"

definition example_warm_newCache :: Cache where
  "example_warm_newCache =
    [''a'' \<mapsto> \<lparr>ce_Mode = 0x1ED, ce_ModificationTime = 5, ce_Size = 2,
                ce_Digest = Some [9]\<rparr>,
     ''d/x'' \<mapsto> \<lparr>ce_Mode = 0x1A4, ce_ModificationTime = 9, ce_Size = 3,
                  ce_Digest = Some [9, 8, 7]\<rparr>]"

definition example_warm_trace :: "syscall list" where
  "example_warm_trace =
    [Sys_Open ''/r/d/x'', Sys_Lstat ''/r/d/x'', Sys_DirectoryContents ''/r/d'',
     Sys_Lstat ''/r/d'', Sys_Lstat ''/r/big'', Sys_Lstat ''/r/gone'',
     Sys_Lstat ''/r/a'', Sys_DirectoryContents ''/r'', Sys_Stat ''/r'']"

text \<open>
  The scan of \<open>/r\<close> with the size limit 50, no input cache and the ignore list that
  holds \<open>a\<close>: the snapshot, the new cache and the system calls made. The file \<open>a\<close> is
  ignored before it is examined.
\<close>

definition example_ignoring_snapshot :: Entry where
  "example_ignoring_snapshot =
    Entry EntryKind_Directory False None []
      [''d'' \<mapsto> Entry EntryKind_Directory False None []
                 [''x'' \<mapsto> Entry EntryKind_File False (Some [9, 8, 7]) [] Map.empty]]"

definition example_ignoring_newCache :: Cache where
  "example_ignoring_newCache =
    [''d/x'' \<mapsto> \<lparr>ce_Mode = 0x1A4, ce_ModificationTime = 9, ce_Size = 3,
                  ce_Digest = Some [9, 8, 7]\<rparr>]"

definition example_ignoring_trace :: "syscall list" where
  "example_ignoring_trace =
    [Sys_Open ''/r/d/x'', Sys_Lstat ''/r/d/x'', Sys_DirectoryContents ''/r/d'',
     Sys_Lstat ''/r/d'', Sys_Lstat ''/r/big'', Sys_Lstat ''/r/gone'',
     Sys_DirectoryContents ''/r'', Sys_Stat ''/r'']"

section \<open>Properties of the scanner\<close>

lemma regular_not_directory:
  "m AND ModeType = 0 \<Longrightarrow> m AND ModeDir = (0 :: 32 word)"
proof -
  assume h: "m AND ModeType = 0"
  have "ModeDir AND ModeType = ModeDir"
    by (simp add: ModeType_def ModeDir_def ModeSymlink_def ModeNamedPipe_def ModeSocket_def
        ModeDevice_def ModeCharDevice_def ModeIrregular_def)
  then have "m AND ModeDir = (m AND ModeType) AND ModeDir"
    by (metis and.assoc and.commute)
  with h show ?thesis by simp
qed

lemma regular_not_symlink:
  "m AND ModeType = 0 \<Longrightarrow> m AND ModeSymlink = (0 :: 32 word)"
proof -
  assume h: "m AND ModeType = 0"
  have "ModeSymlink AND ModeType = ModeSymlink"
    by (simp add: ModeType_def ModeDir_def ModeSymlink_def ModeNamedPipe_def ModeSocket_def
        ModeDevice_def ModeCharDevice_def ModeIrregular_def)
  then have "m AND ModeSymlink = (m AND ModeType) AND ModeSymlink"
    by (metis and.assoc and.commute)
  with h show ?thesis by simp
qed

lemma content_kind_File:
  "content_kind info = Some EntryKind_File \<longleftrightarrow> fi_Mode info AND ModeType = 0"
  by (auto simp: content_kind_def regular_not_directory regular_not_symlink)

lemmas example_defs = example_env_def example_Stat_def example_Lstat_def example_Open_def
  example_DirectoryContents_def example_newPathIgnorer_def example_join_def example_hasher_def
  example_stale_cache_def example_nil_digest_cache_def example_scanner_def example_info_def
  example_old_cache_def

lemmas mode_defs = ModeType_def ModeDir_def ModeSymlink_def ModeNamedPipe_def ModeSocket_def
  ModeDevice_def ModeCharDevice_def ModeIrregular_def AnyExecutablePermission_def

subsection \<open>scanner.file: reuse or hash\<close>

lemma scanner_file_reuse:
  assumes "cache s path = Some cached" and "cache_match s path info"
    and "ce_Digest cached = Some d"
  shows "scanner_file env s path info st =
    (Inr (Entry EntryKind_File (fi_Mode info AND AnyExecutablePermission \<noteq> 0) (Some d) []
            Map.empty),
     st\<lparr>newCache := (newCache st)(path \<mapsto>
        \<lparr>ce_Mode = fi_Mode info, ce_ModificationTime = fi_ModTime info,
         ce_Size = fi_Size info, ce_Digest = Some d\<rparr>)\<rparr>)"
  using assms by (simp add: scanner_file_def Let_def)

lemma scanner_file_hash:
  assumes "\<not> reusable s path info"
  shows "scanner_file env s path info st =
    (case os_Open env (filepath_Join env (root s) path) of
       Inl err \<Rightarrow>
         (Inl (Wrap err ''unable to open file''),
          called (Sys_Open (filepath_Join env (root s) path)) st)
     | Inr (data, Some err) \<Rightarrow>
         (Inl (Wrap err ''unable to hash file contents''),
          called (Sys_Open (filepath_Join env (root s) path)) st)
     | Inr (data, None) \<Rightarrow>
         if word_of_nat (length data) \<noteq> fi_Size info
         then (Inl (New ''hashed size mismatch''),
               called (Sys_Open (filepath_Join env (root s) path)) st)
         else (Inr (Entry EntryKind_File (fi_Mode info AND AnyExecutablePermission \<noteq> 0)
                     (hasher s data) [] Map.empty),
               (called (Sys_Open (filepath_Join env (root s) path)) st)
                 \<lparr>newCache := (newCache st)(path \<mapsto>
                    \<lparr>ce_Mode = fi_Mode info, ce_ModificationTime = fi_ModTime info,
                     ce_Size = fi_Size info, ce_Digest = hasher s data\<rparr>)\<rparr>))"
  using assms
  by (auto simp add: scanner_file_def Let_def reusable_def io_CopyBuffer_def called_def
      cache_match_def split: option.splits sum.splits prod.splits)

lemma scanner_file_trace_reuse:
  "reusable s path info \<Longrightarrow> trace (snd (scanner_file env s path info st)) = trace st"
  by (auto simp: reusable_def scanner_file_reuse)

lemma scanner_file_trace_hash:
  "\<not> reusable s path info \<Longrightarrow>
    trace (snd (scanner_file env s path info st)) =
      Sys_Open (filepath_Join env (root s) path) # trace st"
  by (simp add: scanner_file_hash called_def split: sum.split prod.split option.split)

lemma scanner_file_hash_digest:
  "\<not> reusable s path info \<Longrightarrow> fst (scanner_file env s path info st) = Inr e \<Longrightarrow>
    \<exists>data. os_Open env (filepath_Join env (root s) path) = Inr (data, None) \<and>
      word_of_nat (length data) = fi_Size info \<and> Digest e = hasher s data"
  by (auto simp add: scanner_file_hash called_def
      split: sum.splits prod.splits option.splits if_splits)

lemma scanner_file_config:
  "scanner_file env (s\<lparr>pathIgnorer := ig, ignoreSize := lim\<rparr>) path info st =
   scanner_file env s path info st"
  by (simp add: scanner_file_def cache_match_def Let_def
      cong: option.case_cong sum.case_cong prod.case_cong if_cong)

lemma scanner_file_Inr:
  "scanner_file env s path info st = (Inr e, st') \<Longrightarrow>
    Kind e = EntryKind_File \<and> Contents e = Map.empty \<and>
    newCache st' = (newCache st)(path \<mapsto>
      \<lparr>ce_Mode = fi_Mode info, ce_ModificationTime = fi_ModTime info,
       ce_Size = fi_Size info, ce_Digest = Digest e\<rparr>)"
  by (auto simp: scanner_file_def Let_def called_def
      split: option.splits sum.splits prod.splits if_splits)

lemma scanner_file_Inl:
  "scanner_file env s path info st = (Inl err, st') \<Longrightarrow> newCache st' = newCache st"
  by (auto simp: scanner_file_def Let_def called_def
      split: option.splits sum.splits prod.splits if_splits)

subsection \<open>Scan: the root\<close>

lemma Scan_root_file:
  assumes "newPathIgnorer env ignores = Inr ig" and "os_Stat env root' = Inr info"
    and "fi_Mode info AND ModeType = 0"
  shows "Scan fuel env root' hasher' cache' ignores ignoreSize' =
    (case scanner_file env
        \<lparr>root = root', hasher = hasher',
         cache = (case cache' of None \<Rightarrow> Map.empty | Some c \<Rightarrow> c),
         pathIgnorer = ig, ignoreSize = ignoreSize'\<rparr> [] info
        (called (Sys_Stat root') initial) of
       (Inl err, st') \<Rightarrow> Some (Inl err, trace st')
     | (Inr rootEntry, st') \<Rightarrow> Some (Inr (Some rootEntry, newCache st'), trace st'))"
  using assms regular_not_directory [OF assms(3)]
  by (simp add: Scan_def Let_def initial_def)

text \<open>
  Claim C3, as amended. If the root does not exist, \<open>Scan\<close> returns the nil entry, an
  empty cache and no error, after the one stat of the root, for every input cache, every
  size limit and every ignore list \<^emph>\<open>that the ignorer's constructor accepts\<close>.
\<close>

theorem missing_root_empty_scan:
  assumes "newPathIgnorer env ignores = Inr ig"
    and "os_Stat env root' = Inl err" and "IsNotExist err"
  shows "Scan fuel env root' hasher' cache' ignores ignoreSize' =
    Some (Inr (None, Map.empty), [Sys_Stat root'])"
  using assms by (simp add: Scan_def Let_def called_def)

text \<open>The theorem at the missing root \<open>/nonexistent\<close>, with a cache, an ignore list
  and a size limit.\<close>

theorem missing_root_empty_scan_witness:
  "newPathIgnorer example_env [''a''] = Inr (\<lambda>path. path \<in> set [''a'']) \<and>
   os_Stat example_env ''/nonexistent'' = Inl NotExist \<and> IsNotExist NotExist \<and>
   Scan 0 example_env ''/nonexistent'' example_hasher (Some example_stale_cache) [''a''] 5 =
     Some (Inr (None, Map.empty), [Sys_Stat ''/nonexistent''])"
proof -
  have a: "newPathIgnorer example_env [''a''] = Inr (\<lambda>path. path \<in> set [''a''])"
    by (simp add: example_defs)
  have b: "os_Stat example_env ''/nonexistent'' = Inl NotExist"
    by (simp add: example_defs)
  have c: "IsNotExist NotExist" by simp
  from missing_root_empty_scan [OF a b c] a b c show ?thesis by blast
qed

text \<open>
  Claim C3 as stated fails: \<open>Scan\<close> builds the ignorer before it looks at the root, so
  with an ignore list that the constructor rejects the scan of a missing root is an
  error, and the root is never examined.
\<close>

theorem missing_root_bad_ignores_counterexample:
  "os_Stat example_env ''/nonexistent'' = Inl NotExist \<and> IsNotExist NotExist \<and>
   Scan 0 example_env ''/nonexistent'' example_hasher None [''[''] 0 =
     Some (Inl (Wrap (Failure ''syntax error in pattern'') ''unable to create ignorer''), [])"
  by (simp add: Scan_def example_defs)

text \<open>
  Claim C10, as amended. Ignore patterns and the size limit are never applied to the
  root: for every ignore list that the ignorer's constructor accepts and every size
  limit, the scan of a root that is a regular file is the call of \<open>scanner.file\<close> on the
  empty path, and its result is the one of a scanner that ignores nothing and has no size
  limit. When the call succeeds the scan returns a File entry and a cache whose one entry
  is keyed by the empty path (the digest reused from the input cache or hashed, as
  \<open>scanner.file\<close> decides); when it fails the scan returns its error.
\<close>

theorem root_file_not_filtered:
  assumes "newPathIgnorer env ignores = Inr ig" and "os_Stat env root' = Inr info"
    and "fi_Mode info AND ModeType = 0"
  shows "Scan fuel env root' hasher' cache' ignores ignoreSize' =
    (case scanner_file env
        \<lparr>root = root', hasher = hasher',
         cache = (case cache' of None \<Rightarrow> Map.empty | Some c \<Rightarrow> c),
         pathIgnorer = (\<lambda>path. False), ignoreSize = 0\<rparr> [] info
        (called (Sys_Stat root') initial) of
       (Inl err, st') \<Rightarrow> Some (Inl err, trace st')
     | (Inr rootEntry, st') \<Rightarrow>
         Some (Inr (Some (Entry EntryKind_File (Executable rootEntry) (Digest rootEntry)
                      (Target rootEntry) Map.empty),
                    [[] \<mapsto> \<lparr>ce_Mode = fi_Mode info, ce_ModificationTime = fi_ModTime info,
                              ce_Size = fi_Size info, ce_Digest = Digest rootEntry\<rparr>]),
               trace st'))"
proof -
  let ?s = "\<lparr>root = root', hasher = hasher',
         cache = (case cache' of None \<Rightarrow> Map.empty | Some c \<Rightarrow> c),
         pathIgnorer = ig, ignoreSize = ignoreSize'\<rparr>"
  let ?t = "\<lparr>root = root', hasher = hasher',
         cache = (case cache' of None \<Rightarrow> Map.empty | Some c \<Rightarrow> c),
         pathIgnorer = (\<lambda>path. False), ignoreSize = 0\<rparr>"
  let ?st = "called (Sys_Stat root') initial"
  have eq: "scanner_file env ?s [] info ?st = scanner_file env ?t [] info ?st"
    using scanner_file_config [where s = ?t and ig = ig and lim = ignoreSize'] by simp
  have scan: "Scan fuel env root' hasher' cache' ignores ignoreSize' =
    (case scanner_file env ?t [] info ?st of
       (Inl err, st') \<Rightarrow> Some (Inl err, trace st')
     | (Inr rootEntry, st') \<Rightarrow> Some (Inr (Some rootEntry, newCache st'), trace st'))"
    unfolding Scan_root_file [OF assms] eq ..
  obtain r st' where r: "scanner_file env ?t [] info ?st = (r, st')"
    by (cases "scanner_file env ?t [] info ?st")
  show ?thesis
  proof (cases r)
    case (Inl err)
    with r show ?thesis unfolding scan by simp
  next
    case (Inr e)
    with r have f: "scanner_file env ?t [] info ?st = (Inr e, st')" by simp
    from scanner_file_Inr [OF f] have k: "Kind e = EntryKind_File" "Contents e = Map.empty"
      and c: "newCache st' =
        [[] \<mapsto> \<lparr>ce_Mode = fi_Mode info, ce_ModificationTime = fi_ModTime info,
                  ce_Size = fi_Size info, ce_Digest = Digest e\<rparr>]"
      by (simp_all add: called_def initial_def)
    from k have "e = Entry EntryKind_File (Executable e) (Digest e) (Target e) Map.empty"
      by (cases e) simp
    with f c show ?thesis unfolding scan by simp
  qed
qed

text \<open>
  The theorem at the root file \<open>/f\<close>, of two bytes, with an ignore list that holds the
  root's own path (the empty one) and a size limit of one byte: the file is hashed and
  returned.
\<close>

theorem root_file_not_filtered_witness:
  "newPathIgnorer example_env [[]] = Inr (\<lambda>path. path \<in> set [[]]) \<and>
   os_Stat example_env ''/f'' = Inr example_info \<and>
   fi_Mode example_info AND ModeType = 0 \<and>
   Scan 0 example_env ''/f'' example_hasher None [[]] 1 =
     Some (Inr (Some (Entry EntryKind_File False (Some [5, 4]) [] Map.empty),
                [[] \<mapsto> \<lparr>ce_Mode = 0x1A4, ce_ModificationTime = 7, ce_Size = 2,
                           ce_Digest = Some [5, 4]\<rparr>]),
           [Sys_Open ''/f'', Sys_Stat ''/f''])"
proof -
  have a: "newPathIgnorer example_env [[]] = Inr (\<lambda>path. path \<in> set [[]])"
    by (simp add: example_defs)
  have b: "os_Stat example_env ''/f'' = Inr example_info"
    by (simp add: example_defs)
  have c: "fi_Mode example_info AND ModeType = 0"
    by (simp add: example_defs mode_defs)
  from root_file_not_filtered [OF a b c, of 0 example_hasher None 1]
  have "Scan 0 example_env ''/f'' example_hasher None [[]] 1 =
     Some (Inr (Some (Entry EntryKind_File False (Some [5, 4]) [] Map.empty),
                [[] \<mapsto> \<lparr>ce_Mode = 0x1A4, ce_ModificationTime = 7, ce_Size = 2,
                           ce_Digest = Some [5, 4]\<rparr>]),
           [Sys_Open ''/f'', Sys_Stat ''/f''])"
    by (simp add: scanner_file_def cache_match_def io_CopyBuffer_def called_def initial_def
        Let_def example_defs mode_defs)
  with a b c show ?thesis by blast
qed

text \<open>
  Claim C10 as stated fails: a root that is a regular file is not always hashed. With an
  input cache that matches the stat of \<open>/f\<close> the scan returns the cached digest 9,
  which is not the hash of the file's bytes, and never opens the file.
\<close>

theorem root_file_cache_hit_counterexample:
  "os_Stat example_env ''/f'' = Inr example_info \<and>
   fi_Mode example_info AND ModeType = 0 \<and>
   os_Open example_env ''/f'' = Inr ([4, 5], None) \<and>
   example_hasher [4, 5] = Some [5, 4] \<and>
   Scan 0 example_env ''/f'' example_hasher (Some example_stale_cache) [] 0 =
     Some (Inr (Some (Entry EntryKind_File False (Some [9]) [] Map.empty),
                [[] \<mapsto> \<lparr>ce_Mode = 0x1A4, ce_ModificationTime = 7, ce_Size = 2,
                           ce_Digest = Some [9]\<rparr>]),
           [Sys_Stat ''/f''])"
  by (simp add: Scan_def scanner_file_def cache_match_def called_def Let_def
      example_defs mode_defs)

section \<open>Properties of connect\<close>

text \<open>
  Claim C9. For a URL whose protocol is neither Local nor SSH (Custom, or a number
  without a name), \<open>connect\<close> calls no constructor and no dialer and returns an error
  whose message ends with the protocol's text. For Local it returns what
  \<open>newLocalEndpoint\<close> makes of the URL's path (the constructor's error wrapped); for
  SSH it dials the agent in endpoint mode and, on the connection it gets, returns what
  \<open>newRemoteEndpoint\<close> makes (a dialing or constructor error wrapped).
\<close>

theorem connect_by_protocol:
  "(Protocol url \<noteq> Protocol_Local \<and> Protocol url \<noteq> Protocol_SSH \<longrightarrow>
      connect env session version url ignores alpha prompter =
        (Inl (New (''unknown protocol: '' @ Protocol_String env (Protocol url))), [])) \<and>
   (Protocol url = Protocol_Local \<longrightarrow>
      connect env session version url ignores alpha prompter =
        (case newLocalEndpoint env session version (Path url) ignores alpha of
           Inl err \<Rightarrow> Inl (Wrap err ''unable to create local endpoint'')
         | Inr endpoint \<Rightarrow> Inr endpoint,
         [Call_newLocalEndpoint])) \<and>
   (Protocol url = Protocol_SSH \<longrightarrow>
      connect env session version url ignores alpha prompter =
        (case agent_DialSSH env url prompter (agent_ModeEndpoint env) of
           Inl err \<Rightarrow> (Inl (Wrap err ''unable to connect to SSH remote''), [Call_DialSSH])
         | Inr connection \<Rightarrow>
             (case newRemoteEndpoint env connection session version (Path url) ignores alpha of
                Inl err \<Rightarrow> Inl (Wrap err ''unable to create remote endpoint'')
              | Inr endpoint \<Rightarrow> Inr endpoint,
              [Call_DialSSH, Call_newRemoteEndpoint])))"
  by (auto simp: connect_def split: sum.splits)

text \<open>The theorem at a Custom, a Local and an SSH URL.\<close>

theorem connect_by_protocol_witness:
  "connect example_session_env ''s'' 1 (example_url Protocol_Custom) [] True ''p'' =
     (Inl (New ''unknown protocol: Custom''), []) \<and>
   connect example_session_env ''s'' 1 (example_url Protocol_Local) [] True ''p'' =
     (Inr ''local /srv'', [Call_newLocalEndpoint]) \<and>
   connect example_session_env ''s'' 1 (example_url Protocol_SSH) [] True ''p'' =
     (Inr ''remote endpoint host /srv'', [Call_DialSSH, Call_newRemoteEndpoint])"
proof -
  from connect_by_protocol [of "example_url Protocol_Custom" example_session_env "''s''" 1 "[]"
      True "''p''"]
  have "connect example_session_env ''s'' 1 (example_url Protocol_Custom) [] True ''p'' =
     (Inl (New ''unknown protocol: Custom''), [])"
    by (simp add: example_url_def example_session_env_def example_Protocol_String_def)
  moreover
  from connect_by_protocol [of "example_url Protocol_Local" example_session_env "''s''" 1 "[]"
      True "''p''"]
  have "connect example_session_env ''s'' 1 (example_url Protocol_Local) [] True ''p'' =
     (Inr ''local /srv'', [Call_newLocalEndpoint])"
    by (simp add: example_url_def example_session_env_def)
  moreover
  from connect_by_protocol [of "example_url Protocol_SSH" example_session_env "''s''" 1 "[]"
      True "''p''"]
  have "connect example_session_env ''s'' 1 (example_url Protocol_SSH) [] True ''p'' =
     (Inr ''remote endpoint host /srv'', [Call_DialSSH, Call_newRemoteEndpoint])"
    by (simp add: example_url_def example_session_env_def)
  ultimately show ?thesis by simp
qed

subsection \<open>scanner.directory: one turn of the loop\<close>

lemma directory_loop_Cons:
  "directory_loop fuel env s path (name # names) contents st =
    (case directory_content fuel env s path name st of
       Continue st1 \<Rightarrow> directory_loop fuel env s path names contents st1
     | Return err st1 \<Rightarrow> Some (Inl err, st1)
     | Insert entry st2 \<Rightarrow> directory_loop fuel env s path names (contents(name \<mapsto> entry)) st2
     | Unfinished \<Rightarrow> None)"
  by (simp add: directory_content_def Let_def split: sum.split option.split prod.split)

declare directory_loop.simps(2) [simp del]

lemma directory_content_cases [case_names ignored vanished lstat_error unsupported too_large
    no_symlinks regular link subdir]:
  fixes fuel env s path name st
  defines "p \<equiv> path_Join env path name"
  defines "st1 \<equiv> called (Sys_Lstat (filepath_Join env (root s) p)) st"
  defines "out \<equiv> directory_content fuel env s path name st"
  obtains
    "pathIgnorer s p" "out = Continue st"
  | err where "\<not> pathIgnorer s p" "os_Lstat env (filepath_Join env (root s) p) = Inl err"
      "IsNotExist err" "out = Continue st1"
  | err where "\<not> pathIgnorer s p" "os_Lstat env (filepath_Join env (root s) p) = Inl err"
      "\<not> IsNotExist err" "out = Return (Wrap err ''unable to stat directory content'') st1"
  | info where "\<not> pathIgnorer s p" "os_Lstat env (filepath_Join env (root s) p) = Inr info"
      "content_kind info = None" "out = Continue st1"
  | info where "\<not> pathIgnorer s p" "os_Lstat env (filepath_Join env (root s) p) = Inr info"
      "content_kind info = Some EntryKind_File" "ignoreSize s > 0" "fi_Size info \<ge> ignoreSize s"
      "out = Continue st1"
  | info where "\<not> pathIgnorer s p" "os_Lstat env (filepath_Join env (root s) p) = Inr info"
      "content_kind info = Some EntryKind_Symlink" "\<not> symlinksSupported env"
      "out = Continue st1"
  | info where "\<not> pathIgnorer s p" "os_Lstat env (filepath_Join env (root s) p) = Inr info"
      "content_kind info = Some EntryKind_File"
      "\<not> (ignoreSize s > 0 \<and> fi_Size info \<ge> ignoreSize s)"
      "out = (case scanner_file env s p info st1 of
                (Inl err, st2) \<Rightarrow> Return err st2 | (Inr entry, st2) \<Rightarrow> Insert entry st2)"
  | info where "\<not> pathIgnorer s p" "os_Lstat env (filepath_Join env (root s) p) = Inr info"
      "content_kind info = Some EntryKind_Symlink" "symlinksSupported env"
      "out = (case scanner_symlink env s p st1 of
                (Inl err, st2) \<Rightarrow> Return err st2 | (Inr entry, st2) \<Rightarrow> Insert entry st2)"
  | info where "\<not> pathIgnorer s p" "os_Lstat env (filepath_Join env (root s) p) = Inr info"
      "content_kind info = Some EntryKind_Directory"
      "out = (case scanner_directory fuel env s p st1 of
                None \<Rightarrow> Unfinished
              | Some (Inl err, st2) \<Rightarrow> Return err st2
              | Some (Inr entry, st2) \<Rightarrow> Insert entry st2)"
proof (cases "pathIgnorer s p")
  case True
  then have "out = Continue st"
    by (simp add: out_def directory_content_def p_def)
  with True that(1) show ?thesis by blast
next
  case ni: False
  show ?thesis
  proof (cases "os_Lstat env (filepath_Join env (root s) p)")
    case (Inl err)
    with ni have "out = (if IsNotExist err then Continue st1
        else Return (Wrap err ''unable to stat directory content'') st1)"
      by (simp add: out_def directory_content_def p_def st1_def Let_def)
    with ni Inl that(2,3) show ?thesis by (cases "IsNotExist err") auto
  next
    case (Inr info)
    show ?thesis
    proof (cases "content_kind info")
      case None
      with ni Inr have "out = Continue st1"
        by (simp add: out_def directory_content_def p_def st1_def Let_def)
      with ni Inr None that(4) show ?thesis by blast
    next
      case (Some kind)
      show ?thesis
      proof (cases kind)
        case EntryKind_File
        with ni Inr Some have "out =
          (if ignoreSize s > 0 \<and> fi_Size info \<ge> ignoreSize s then Continue st1
           else (case scanner_file env s p info st1 of
                (Inl err, st2) \<Rightarrow> Return err st2 | (Inr entry, st2) \<Rightarrow> Insert entry st2))"
          by (simp add: out_def directory_content_def p_def st1_def Let_def
              split: prod.split sum.split)
        with ni Inr Some EntryKind_File that(5,7) show ?thesis
          by (cases "ignoreSize s > 0 \<and> fi_Size info \<ge> ignoreSize s") auto
      next
        case EntryKind_Symlink
        with ni Inr Some have "out =
          (if \<not> symlinksSupported env then Continue st1
           else (case scanner_symlink env s p st1 of
                (Inl err, st2) \<Rightarrow> Return err st2 | (Inr entry, st2) \<Rightarrow> Insert entry st2))"
          by (simp add: out_def directory_content_def p_def st1_def Let_def
              split: prod.split sum.split)
        with ni Inr Some EntryKind_Symlink that(6,8) show ?thesis
          by (cases "symlinksSupported env") auto
      next
        case EntryKind_Directory
        with ni Inr Some have "out =
          (case scanner_directory fuel env s p st1 of
                None \<Rightarrow> Unfinished
              | Some (Inl err, st2) \<Rightarrow> Return err st2
              | Some (Inr entry, st2) \<Rightarrow> Insert entry st2)"
          by (simp add: out_def directory_content_def p_def st1_def Let_def)
        with ni Inr Some EntryKind_Directory that(9) show ?thesis by blast
      qed
    qed
  qed
qed

subsection \<open>The new cache holds only what \<open>file_record\<close> describes, and only grows\<close>

lemma called_simps [simp]:
  "newCache (called c st) = newCache st" "trace (called c st) = c # trace st"
  by (simp_all add: called_def)

lemma scanner_file_fst:
  "fst (scanner_file env s path info st) = fst (scanner_file env s path info st2)"
  by (simp add: scanner_file_def Let_def split: option.split sum.split prod.split)

lemma scanner_symlink_newCache:
  "scanner_symlink env s p st = (r, st') \<Longrightarrow> newCache st' = newCache st"
  by (auto simp: scanner_symlink_def Let_def split: sum.splits if_splits)

lemma scanner_symlink_Inr:
  "scanner_symlink env s p st = (Inr e, st') \<Longrightarrow>
    Kind e = EntryKind_Symlink \<and> Contents e = Map.empty"
  by (auto simp: scanner_symlink_def Let_def split: sum.splits if_splits)

lemma file_record_file:
  assumes "\<not> pathIgnorer s p" and "os_Lstat env (filepath_Join env (root s) p) = Inr info"
    and "content_kind info = Some EntryKind_File"
    and "\<not> (ignoreSize s > 0 \<and> fi_Size info \<ge> ignoreSize s)"
    and "scanner_file env s p info st = (Inr e, st')"
  shows "file_record env s p =
    Some \<lparr>ce_Mode = fi_Mode info, ce_ModificationTime = fi_ModTime info,
          ce_Size = fi_Size info, ce_Digest = Digest e\<rparr>"
proof -
  from assms(5) have "fst (scanner_file env s p info initial) = Inr e"
    using scanner_file_fst [of env s p info initial st] by simp
  with assms(1-4) show ?thesis
    by (simp add: file_record_def)
qed

lemma map_le_upd_same:
  "m \<subseteq>\<^sub>m f \<Longrightarrow> f k = Some v \<Longrightarrow> m(k \<mapsto> v) \<subseteq>\<^sub>m f \<and> m \<subseteq>\<^sub>m m(k \<mapsto> v)"
  by (auto simp: map_le_def dom_def)

lemma cache_inv_content:
  assumes IH: "\<And>path st r st'. newCache st \<subseteq>\<^sub>m file_record env s \<Longrightarrow>
      scanner_directory fuel env s path st = Some (r, st') \<Longrightarrow>
      newCache st' \<subseteq>\<^sub>m file_record env s \<and> newCache st \<subseteq>\<^sub>m newCache st'"
    and inv: "newCache st \<subseteq>\<^sub>m file_record env s"
    and out: "outcome_state (directory_content fuel env s path name st) = Some st'"
  shows "newCache st' \<subseteq>\<^sub>m file_record env s \<and> newCache st \<subseteq>\<^sub>m newCache st'"
proof (cases rule: directory_content_cases [of s env path name fuel st])
  case ignored
  with out inv show ?thesis by simp
next
  case (vanished err)
  with out inv show ?thesis by auto
next
  case (lstat_error err)
  with out inv show ?thesis by auto
next
  case (unsupported info)
  with out inv show ?thesis by auto
next
  case (too_large info)
  with out inv show ?thesis by auto
next
  case (no_symlinks info)
  with out inv show ?thesis by auto
next
  case (regular info)
  let ?p = "path_Join env path name"
  let ?st1 = "called (Sys_Lstat (filepath_Join env (root s) ?p)) st"
  obtain r st2 where f: "scanner_file env s ?p info ?st1 = (r, st2)"
    by (cases "scanner_file env s ?p info ?st1")
  show ?thesis
  proof (cases r)
    case (Inl err)
    with f regular(5) out have "st' = st2" by simp
    moreover from f Inl have "newCache st2 = newCache st"
      using scanner_file_Inl [of env s ?p info ?st1 err st2] by simp
    ultimately show ?thesis using inv by simp
  next
    case (Inr e)
    with f regular(5) out have "st' = st2" by simp
    moreover from f Inr have f': "scanner_file env s ?p info ?st1 = (Inr e, st2)" by simp
    from scanner_file_Inr [OF f'] have "newCache st2 = (newCache st)(?p \<mapsto>
      \<lparr>ce_Mode = fi_Mode info, ce_ModificationTime = fi_ModTime info,
       ce_Size = fi_Size info, ce_Digest = Digest e\<rparr>)" by simp
    moreover note file_record_file [OF regular(1-4) f'] inv
    ultimately show ?thesis using map_le_upd_same by metis
  qed
next
  case (link info)
  let ?p = "path_Join env path name"
  let ?st1 = "called (Sys_Lstat (filepath_Join env (root s) ?p)) st"
  obtain r st2 where f: "scanner_symlink env s ?p ?st1 = (r, st2)"
    by (cases "scanner_symlink env s ?p ?st1")
  with link(5) out have "st' = st2" by (cases r) simp_all
  with scanner_symlink_newCache [OF f] inv show ?thesis by simp
next
  case (subdir info)
  let ?p = "path_Join env path name"
  let ?st1 = "called (Sys_Lstat (filepath_Join env (root s) ?p)) st"
  from subdir(4) out obtain r where d: "scanner_directory fuel env s ?p ?st1 = Some (r, st')"
    by (auto split: option.splits sum.splits prod.splits)
  from inv have "newCache ?st1 \<subseteq>\<^sub>m file_record env s" by simp
  from IH [OF this d] show ?thesis by simp
qed

lemma cache_inv_loop:
  assumes IH: "\<And>path st r st'. newCache st \<subseteq>\<^sub>m file_record env s \<Longrightarrow>
      scanner_directory fuel env s path st = Some (r, st') \<Longrightarrow>
      newCache st' \<subseteq>\<^sub>m file_record env s \<and> newCache st \<subseteq>\<^sub>m newCache st'"
  shows "newCache st \<subseteq>\<^sub>m file_record env s \<Longrightarrow>
    directory_loop fuel env s path names contents st = Some (r, st') \<Longrightarrow>
    newCache st' \<subseteq>\<^sub>m file_record env s \<and> newCache st \<subseteq>\<^sub>m newCache st'"
proof (induction names arbitrary: contents st)
  case Nil
  then show ?case by simp
next
  case (Cons name names)
  note loop = Cons.prems(2) [unfolded directory_loop_Cons]
  show ?case
  proof (cases "directory_content fuel env s path name st")
    case (Continue st1)
    with cache_inv_content [OF IH Cons.prems(1), where path = path and name = name and st' = st1]
    have 1: "newCache st1 \<subseteq>\<^sub>m file_record env s" "newCache st \<subseteq>\<^sub>m newCache st1" by simp_all
    from loop Continue have "directory_loop fuel env s path names contents st1 = Some (r, st')"
      by simp
    from Cons.IH [OF 1(1) this] 1(2) show ?thesis by (auto intro: map_le_trans)
  next
    case (Return err st1)
    with cache_inv_content [OF IH Cons.prems(1), where path = path and name = name and st' = st1] loop
    show ?thesis by simp
  next
    case (Insert e st2)
    with cache_inv_content [OF IH Cons.prems(1), where path = path and name = name and st' = st2]
    have 1: "newCache st2 \<subseteq>\<^sub>m file_record env s" "newCache st \<subseteq>\<^sub>m newCache st2" by simp_all
    from loop Insert
    have "directory_loop fuel env s path names (contents(name \<mapsto> e)) st2 = Some (r, st')"
      by simp
    from Cons.IH [OF 1(1) this] 1(2) show ?thesis by (auto intro: map_le_trans)
  next
    case Unfinished
    with loop show ?thesis by simp
  qed
qed

lemma cache_inv_directory:
  "newCache st \<subseteq>\<^sub>m file_record env s \<Longrightarrow>
    scanner_directory fuel env s path st = Some (r, st') \<Longrightarrow>
    newCache st' \<subseteq>\<^sub>m file_record env s \<and> newCache st \<subseteq>\<^sub>m newCache st'"
proof (induction fuel arbitrary: path st r st')
  case 0
  then show ?case by simp
next
  case (Suc fuel)
  let ?st1 = "called (Sys_DirectoryContents (filepath_Join env (root s) path)) st"
  show ?case
  proof (cases "filesystem_DirectoryContents env (filepath_Join env (root s) path)")
    case (Inl err)
    with Suc.prems show ?thesis by (auto simp: Let_def)
  next
    case (Inr names)
    with Suc.prems(2) obtain r' where
      loop: "directory_loop fuel env s path names Map.empty ?st1 = Some (r', st')"
      by (auto simp: Let_def split: option.splits sum.splits prod.splits)
    from Suc.prems(1) have "newCache ?st1 \<subseteq>\<^sub>m file_record env s" by simp
    from cache_inv_loop [OF Suc.IH this loop] show ?thesis by simp
  qed
qed

subsection \<open>Cache coherence below every entry a directory scan returns\<close>

lemma relative_path_simps [simp]:
  "relative_path env p [] = p"
  "relative_path env p (n # ns) = relative_path env (path_Join env p n) ns"
  by (simp_all add: relative_path_def)

lemma entry_at_leaf:
  "Contents e = Map.empty \<Longrightarrow> entry_at e names = Some e' \<longleftrightarrow> names = [] \<and> e' = e"
  by (cases names) auto

lemma files_ok_mono:
  "files_ok env s c p e \<Longrightarrow> c \<subseteq>\<^sub>m c' \<Longrightarrow> files_ok env s c' p e"
  unfolding files_ok_def map_le_def by (metis domI)

lemma files_ok_symlink:
  "Contents e = Map.empty \<Longrightarrow> Kind e = EntryKind_Symlink \<Longrightarrow> files_ok env s c p e"
  by (simp add: files_ok_def entry_at_leaf)

lemma files_ok_file:
  assumes "Contents e = Map.empty"
    and "os_Lstat env (filepath_Join env (root s) p) = Inr info"
    and "c p = Some \<lparr>ce_Mode = fi_Mode info, ce_ModificationTime = fi_ModTime info,
                  ce_Size = fi_Size info, ce_Digest = Digest e\<rparr>"
  shows "files_ok env s c p e"
  using assms by (simp add: files_ok_def entry_at_leaf)

lemma files_ok_directory:
  assumes "\<And>n c'. contents n = Some c' \<Longrightarrow> files_ok env s c (path_Join env p n) c'"
  shows "files_ok env s c p (Entry EntryKind_Directory x d t contents)"
  unfolding files_ok_def
proof (intro allI impI)
  fix names e'
  assume at: "entry_at (Entry EntryKind_Directory x d t contents) names = Some e'"
    and k: "Kind e' = EntryKind_File"
  show "\<exists>info. os_Lstat env (filepath_Join env (root s) (relative_path env p names)) = Inr info \<and>
          c (relative_path env p names) =
            Some \<lparr>ce_Mode = fi_Mode info, ce_ModificationTime = fi_ModTime info,
                  ce_Size = fi_Size info, ce_Digest = Digest e'\<rparr>"
  proof (cases names)
    case Nil
    with at k show ?thesis by auto
  next
    case (Cons n ns)
    with at obtain c' where c': "contents n = Some c'" "entry_at c' ns = Some e'"
      by (auto split: option.splits)
    from assms [OF c'(1)] c'(2) k Cons show ?thesis
      by (simp add: files_ok_def)
  qed
qed

lemma files_ok_content:
  assumes IH: "\<And>path st e st'. newCache st \<subseteq>\<^sub>m file_record env s \<Longrightarrow>
      scanner_directory fuel env s path st = Some (Inr e, st') \<Longrightarrow>
      files_ok env s (newCache st') path e"
    and inv: "newCache st \<subseteq>\<^sub>m file_record env s"
    and out: "directory_content fuel env s path name st = Insert e st'"
  shows "files_ok env s (newCache st') (path_Join env path name) e"
proof (cases rule: directory_content_cases [of s env path name fuel st])
  case (regular info)
  let ?p = "path_Join env path name"
  let ?st1 = "called (Sys_Lstat (filepath_Join env (root s) ?p)) st"
  from regular(5) out have f: "scanner_file env s ?p info ?st1 = (Inr e, st')"
    by (auto split: prod.splits sum.splits)
  from scanner_file_Inr [OF f] regular(2) show ?thesis
    by (intro files_ok_file [where info = info]) simp_all
next
  case (link info)
  let ?p = "path_Join env path name"
  let ?st1 = "called (Sys_Lstat (filepath_Join env (root s) ?p)) st"
  from link(5) out have f: "scanner_symlink env s ?p ?st1 = (Inr e, st')"
    by (auto split: prod.splits sum.splits)
  from scanner_symlink_Inr [OF f] show ?thesis
    by (simp add: files_ok_symlink)
next
  case (subdir info)
  let ?p = "path_Join env path name"
  let ?st1 = "called (Sys_Lstat (filepath_Join env (root s) ?p)) st"
  from subdir(4) out have d: "scanner_directory fuel env s ?p ?st1 = Some (Inr e, st')"
    by (auto split: option.splits prod.splits sum.splits)
  from inv have "newCache ?st1 \<subseteq>\<^sub>m file_record env s" by simp
  from IH [OF this d] show ?thesis .
qed (use out in simp_all)

lemma files_ok_loop:
  assumes IH: "\<And>path st e st'. newCache st \<subseteq>\<^sub>m file_record env s \<Longrightarrow>
      scanner_directory fuel env s path st = Some (Inr e, st') \<Longrightarrow>
      files_ok env s (newCache st') path e"
  shows "newCache st \<subseteq>\<^sub>m file_record env s \<Longrightarrow>
    (\<And>n c. contents n = Some c \<Longrightarrow> files_ok env s (newCache st) (path_Join env path n) c) \<Longrightarrow>
    directory_loop fuel env s path names contents st = Some (Inr contents', st') \<Longrightarrow>
    contents' n = Some c \<Longrightarrow> files_ok env s (newCache st') (path_Join env path n) c"
proof (induction names arbitrary: contents st)
  case Nil
  then show ?case by simp
next
  case (Cons name names)
  note loop = Cons.prems(3) [unfolded directory_loop_Cons]
  show ?case
  proof (cases "directory_content fuel env s path name st")
    case (Continue st1)
    then have os: "outcome_state (directory_content fuel env s path name st) = Some st1"
      by simp
    from cache_inv_content [OF cache_inv_directory Cons.prems(1) os]
    have 1: "newCache st1 \<subseteq>\<^sub>m file_record env s" "newCache st \<subseteq>\<^sub>m newCache st1" by simp_all
    from loop Continue
    have 2: "directory_loop fuel env s path names contents st1 = Some (Inr contents', st')"
      by simp
    have 3: "\<And>n c. contents n = Some c \<Longrightarrow>
        files_ok env s (newCache st1) (path_Join env path n) c"
      using Cons.prems(2) 1(2) files_ok_mono by blast
    from Cons.IH [OF 1(1) 3 2 Cons.prems(4)] show ?thesis .
  next
    case (Return err st1)
    with loop show ?thesis by simp
  next
    case (Insert e st2)
    then have os: "outcome_state (directory_content fuel env s path name st) = Some st2"
      by simp
    from cache_inv_content [OF cache_inv_directory Cons.prems(1) os]
    have 1: "newCache st2 \<subseteq>\<^sub>m file_record env s" "newCache st \<subseteq>\<^sub>m newCache st2" by simp_all
    from loop Insert
    have 2: "directory_loop fuel env s path names (contents(name \<mapsto> e)) st2 =
        Some (Inr contents', st')"
      by simp
    have new: "files_ok env s (newCache st2) (path_Join env path name) e"
      by (rule files_ok_content [OF IH Cons.prems(1) Insert])
    have 3: "files_ok env s (newCache st2) (path_Join env path n) c"
      if "(contents(name \<mapsto> e)) n = Some c" for n c
    proof (cases "n = name")
      case True
      with that new show ?thesis by simp
    next
      case False
      with that have "contents n = Some c" by simp
      from files_ok_mono [OF Cons.prems(2) [OF this] 1(2)] show ?thesis .
    qed
    from Cons.IH [OF 1(1) 3 2 Cons.prems(4)] show ?thesis .
  next
    case Unfinished
    with loop show ?thesis by simp
  qed
qed

lemma files_ok_scanner_directory:
  "newCache st \<subseteq>\<^sub>m file_record env s \<Longrightarrow>
    scanner_directory fuel env s path st = Some (Inr e, st') \<Longrightarrow>
    files_ok env s (newCache st') path e"
proof (induction fuel arbitrary: path st e st')
  case 0
  then show ?case by simp
next
  case (Suc fuel)
  let ?st1 = "called (Sys_DirectoryContents (filepath_Join env (root s) path)) st"
  from Suc.prems(2) obtain names contents where
    loop: "directory_loop fuel env s path names Map.empty ?st1 = Some (Inr contents, st')"
    and e: "e = Entry EntryKind_Directory False None [] contents"
    by (auto simp: Let_def split: option.splits sum.splits prod.splits)
  from Suc.prems(1) have inv: "newCache ?st1 \<subseteq>\<^sub>m file_record env s" by simp
  have "\<And>n c. contents n = Some c \<Longrightarrow> files_ok env s (newCache st') (path_Join env path n) c"
    by (rule files_ok_loop [OF Suc.IH inv _ loop]) simp_all
  then show ?case unfolding e by (rule files_ok_directory)
qed

lemma example_scan:
  "Scan 2 example_env ''/r'' example_hasher (Some example_old_cache) [] 50 =
    Some (Inr (Some example_snapshot, example_newCache), example_trace)"
proof -
  have "Scan (Suc (Suc 0)) example_env ''/r'' example_hasher (Some example_old_cache) [] 50 =
    Some (Inr (Some example_snapshot, example_newCache), example_trace)"
    by (simp add: Scan_def directory_loop_Cons directory_content_def
        scanner_file_def cache_match_def io_CopyBuffer_def content_kind_def called_def Let_def
        example_snapshot_def example_newCache_def example_trace_def example_defs mode_defs)
  then show ?thesis by (simp only: numeral_2_eq_2)
qed

lemma scanner_directory_Kind:
  "scanner_directory fuel env s path st = Some (Inr e, st') \<Longrightarrow> Kind e = EntryKind_Directory"
  by (cases fuel) (auto simp: Let_def split: sum.splits option.splits prod.splits)

text \<open>
  Claim C2. For every File entry of the snapshot a scan returns, reached from the root
  entry along a list of names, the output cache has, at the entry's relative path, a
  cache entry whose mode, modification time and size are those of the stat the scan made
  of the path (the stat of the root for the root itself, the lstat of the path below it)
  and whose digest is the entry's digest.
\<close>

theorem cache_coherence:
  assumes scan: "Scan fuel env root' hasher' cache' ignores ignoreSize' =
      Some (Inr (Some rootEntry, c), tr)"
    and at: "entry_at rootEntry names = Some e" and k: "Kind e = EntryKind_File"
  shows "\<exists>info.
    (if names = [] then os_Stat env root'
     else os_Lstat env (filepath_Join env root' (relative_path env [] names))) = Inr info \<and>
    c (relative_path env [] names) =
      Some \<lparr>ce_Mode = fi_Mode info, ce_ModificationTime = fi_ModTime info,
            ce_Size = fi_Size info, ce_Digest = Digest e\<rparr>"
proof -
  from scan obtain ig where ig: "newPathIgnorer env ignores = Inr ig"
    by (cases "newPathIgnorer env ignores") (simp_all add: Scan_def)
  from scan ig obtain info where info: "os_Stat env root' = Inr info"
    by (cases "os_Stat env root'") (auto simp: Scan_def Let_def split: if_splits)
  let ?s = "\<lparr>root = root', hasher = hasher',
         cache = (case cache' of None \<Rightarrow> Map.empty | Some c \<Rightarrow> c),
         pathIgnorer = ig, ignoreSize = ignoreSize'\<rparr>"
  let ?st = "called (Sys_Stat root') initial"
  show ?thesis
  proof (cases "fi_Mode info AND ModeDir \<noteq> 0")
    case True
    with scan ig info obtain st' where
      d: "scanner_directory fuel env ?s [] ?st = Some (Inr rootEntry, st')"
      and c: "c = newCache st'"
      by (auto simp: Scan_def Let_def initial_def split: option.splits sum.splits prod.splits)
    have "newCache ?st \<subseteq>\<^sub>m file_record env ?s" by (simp add: initial_def)
    from files_ok_scanner_directory [OF this d] at k
    obtain i where "os_Lstat env (filepath_Join env root' (relative_path env [] names)) = Inr i"
      "c (relative_path env [] names) =
        Some \<lparr>ce_Mode = fi_Mode i, ce_ModificationTime = fi_ModTime i,
              ce_Size = fi_Size i, ce_Digest = Digest e\<rparr>"
      unfolding files_ok_def c by fastforce
    moreover from scanner_directory_Kind [OF d] at k have "names \<noteq> []" by auto
    ultimately show ?thesis by auto
  next
    case False
    with scan ig info obtain st' where
      f: "scanner_file env ?s [] info ?st = (Inr rootEntry, st')"
      and c: "c = newCache st'"
      by (auto simp: Scan_def Let_def initial_def split: if_splits sum.splits prod.splits)
    from scanner_file_Inr [OF f] at have "names = []" "e = rootEntry"
      by (simp_all add: entry_at_leaf)
    with scanner_file_Inr [OF f] c info show ?thesis by simp
  qed
qed

text \<open>The theorem at the file \<open>d/x\<close> of the scan of \<open>/r\<close>.\<close>

theorem cache_coherence_witness:
  "Scan 2 example_env ''/r'' example_hasher (Some example_old_cache) [] 50 =
     Some (Inr (Some example_snapshot, example_newCache), example_trace) \<and>
   entry_at example_snapshot [''d'', ''x''] =
     Some (Entry EntryKind_File False (Some [9, 8, 7]) [] Map.empty) \<and>
   (\<exists>info. os_Lstat example_env ''/r/d/x'' = Inr info \<and>
      example_newCache ''d/x'' =
        Some \<lparr>ce_Mode = fi_Mode info, ce_ModificationTime = fi_ModTime info,
              ce_Size = fi_Size info, ce_Digest = Some [9, 8, 7]\<rparr>)"
proof -
  have at: "entry_at example_snapshot [''d'', ''x''] =
     Some (Entry EntryKind_File False (Some [9, 8, 7]) [] Map.empty)"
    by (simp add: example_snapshot_def)
  from cache_coherence [OF example_scan at]
  have "\<exists>info. os_Lstat example_env ''/r/d/x'' = Inr info \<and>
      example_newCache ''d/x'' =
        Some \<lparr>ce_Mode = fi_Mode info, ce_ModificationTime = fi_ModTime info,
              ce_Size = fi_Size info, ce_Digest = Some [9, 8, 7]\<rparr>"
    by (simp add: example_env_def example_join_def)
  with example_scan at show ?thesis by blast
qed

subsection \<open>What a scan returns does not depend on the state it starts from\<close>

lemma scanner_symlink_fst:
  "fst (scanner_symlink env s p st) = fst (scanner_symlink env s p st2)"
  by (simp add: scanner_symlink_def Let_def split: sum.split)

lemma forget_pair:
  "fst a = fst b \<Longrightarrow>
    forget (case a of (Inl err, st2) \<Rightarrow> Return err st2 | (Inr e, st2) \<Rightarrow> Insert e st2) =
    forget (case b of (Inl err, st2) \<Rightarrow> Return err st2 | (Inr e, st2) \<Rightarrow> Insert e st2)"
  by (cases a; cases b) (auto split: sum.splits)

lemma forget_option:
  "map_option fst a = map_option fst b \<Longrightarrow>
    forget (case a of None \<Rightarrow> Unfinished | Some (Inl err, st2) \<Rightarrow> Return err st2
            | Some (Inr e, st2) \<Rightarrow> Insert e st2) =
    forget (case b of None \<Rightarrow> Unfinished | Some (Inl err, st2) \<Rightarrow> Return err st2
            | Some (Inr e, st2) \<Rightarrow> Insert e st2)"
  by (cases a; cases b) (auto split: sum.splits)

lemma directory_content_forget:
  assumes IH: "\<And>path st st2. map_option fst (scanner_directory fuel env s path st) =
      map_option fst (scanner_directory fuel env s path st2)"
  shows "forget (directory_content fuel env s path name st) =
    forget (directory_content fuel env s path name st2)"
proof (cases rule: directory_content_cases [of s env path name fuel st])
  case ignored
  then show ?thesis by (simp add: directory_content_def)
next
  case (vanished err)
  then show ?thesis by (simp add: directory_content_def)
next
  case (lstat_error err)
  then show ?thesis by (simp add: directory_content_def)
next
  case (unsupported info)
  then show ?thesis by (simp add: directory_content_def)
next
  case (too_large info)
  then show ?thesis by (simp add: directory_content_def)
next
  case (no_symlinks info)
  then show ?thesis by (simp add: directory_content_def)
next
  case (regular info)
  let ?p = "path_Join env path name"
  from regular(1-4) have "directory_content fuel env s path name st2 =
    (case scanner_file env s ?p info (called (Sys_Lstat (filepath_Join env (root s) ?p)) st2) of
       (Inl err, st3) \<Rightarrow> Return err st3 | (Inr e, st3) \<Rightarrow> Insert e st3)"
    by (auto simp add: directory_content_def Let_def split: prod.splits sum.splits)
  with regular(5) show ?thesis
    by (simp only: forget_pair [OF scanner_file_fst])
next
  case (link info)
  let ?p = "path_Join env path name"
  from link(1-4) have "directory_content fuel env s path name st2 =
    (case scanner_symlink env s ?p (called (Sys_Lstat (filepath_Join env (root s) ?p)) st2) of
       (Inl err, st3) \<Rightarrow> Return err st3 | (Inr e, st3) \<Rightarrow> Insert e st3)"
    by (auto simp add: directory_content_def Let_def split: prod.splits sum.splits)
  with link(5) show ?thesis
    by (simp only: forget_pair [OF scanner_symlink_fst])
next
  case (subdir info)
  let ?p = "path_Join env path name"
  from subdir(1-3) have "directory_content fuel env s path name st2 =
    (case scanner_directory fuel env s ?p
        (called (Sys_Lstat (filepath_Join env (root s) ?p)) st2) of
       None \<Rightarrow> Unfinished
     | Some (Inl err, st3) \<Rightarrow> Return err st3
     | Some (Inr e, st3) \<Rightarrow> Insert e st3)"
    by (simp add: directory_content_def Let_def)
  with subdir(4) show ?thesis
    by (simp only: forget_option [OF IH])
qed

lemma forget_eq_cases:
  "forget a = forget b \<Longrightarrow>
    (case a of
       Continue st \<Rightarrow> \<exists>st2. b = Continue st2
     | Return err st \<Rightarrow> \<exists>st2. b = Return err st2
     | Insert e st \<Rightarrow> \<exists>st2. b = Insert e st2
     | Unfinished \<Rightarrow> b = Unfinished)"
  by (cases a; cases b) simp_all

lemma directory_loop_fst:
  assumes IH: "\<And>path st st2. map_option fst (scanner_directory fuel env s path st) =
      map_option fst (scanner_directory fuel env s path st2)"
  shows "map_option fst (directory_loop fuel env s path names contents st) =
    map_option fst (directory_loop fuel env s path names contents st2)"
proof (induction names arbitrary: contents st st2)
  case Nil
  show ?case by simp
next
  case (Cons name names)
  from forget_eq_cases [OF directory_content_forget [OF IH, of path name st st2]]
  show ?case
    by (cases "directory_content fuel env s path name st")
      (auto simp: directory_loop_Cons Cons.IH)
qed

lemma map_fst_directory:
  "map_option fst a = map_option fst b \<Longrightarrow>
    map_option fst (case a of None \<Rightarrow> None | Some (Inl err, st2) \<Rightarrow> Some (Inl err, st2)
            | Some (Inr c, st2) \<Rightarrow> Some (Inr (f c), st2)) =
    map_option fst (case b of None \<Rightarrow> None | Some (Inl err, st2) \<Rightarrow> Some (Inl err, st2)
            | Some (Inr c, st2) \<Rightarrow> Some (Inr (f c), st2))"
  by (cases a; cases b) (auto split: sum.splits)

lemma scanner_directory_fst:
  "map_option fst (scanner_directory fuel env s path st) =
    map_option fst (scanner_directory fuel env s path st2)"
proof (induction fuel arbitrary: path st st2)
  case 0
  show ?case by simp
next
  case (Suc fuel)
  show ?case
  proof (cases "filesystem_DirectoryContents env (filepath_Join env (root s) path)")
    case (Inl err)
    then show ?thesis by (simp add: Let_def)
  next
    case (Inr names)
    let ?n = "filepath_Join env (root s) path"
    from Inr show ?thesis
      by (simp add: Let_def map_fst_directory [OF directory_loop_fst [OF Suc.IH]])
  qed
qed

lemma inserted_eq:
  "directory_content fuel env s path name st = Insert e st' \<Longrightarrow>
    inserted fuel env s path name = Some e"
  using forget_eq_cases [OF directory_content_forget [OF scanner_directory_fst,
      of fuel env s path name st initial]]
  by (auto simp: inserted_def)

lemma not_inserted_eq:
  "directory_content fuel env s path name st = Continue st' \<Longrightarrow>
    inserted fuel env s path name = None"
  using forget_eq_cases [OF directory_content_forget [OF scanner_directory_fst,
      of fuel env s path name st initial]]
  by (auto simp: inserted_def)

lemma directory_loop_contents:
  "directory_loop fuel env s path names contents st = Some (Inr contents', st') \<Longrightarrow>
    contents' n =
      (if n \<in> set names \<and> inserted fuel env s path n \<noteq> None
       then inserted fuel env s path n else contents n)"
proof (induction names arbitrary: contents st)
  case Nil
  then show ?case by simp
next
  case (Cons name names)
  note loop = Cons.prems [unfolded directory_loop_Cons]
  show ?case
  proof (cases "directory_content fuel env s path name st")
    case (Continue st1)
    with loop have "directory_loop fuel env s path names contents st1 = Some (Inr contents', st')"
      by simp
    from Cons.IH [OF this] not_inserted_eq [OF Continue] show ?thesis by auto
  next
    case (Return err st1)
    with loop show ?thesis by simp
  next
    case (Insert e st2)
    with loop
    have "directory_loop fuel env s path names (contents(name \<mapsto> e)) st2 =
        Some (Inr contents', st')"
      by simp
    from Cons.IH [OF this] inserted_eq [OF Insert] show ?thesis by auto
  next
    case Unfinished
    with loop show ?thesis by simp
  qed
qed

subsection \<open>The keys a directory scan adds are paths of File entries it returns\<close>

lemma file_paths_leaf:
  "Contents e = Map.empty \<Longrightarrow>
    file_paths env p e = (if Kind e = EntryKind_File then {p} else {})"
  by (auto simp: file_paths_def entry_at_leaf)

lemma file_paths_directory:
  "contents n = Some c \<Longrightarrow>
    file_paths env (path_Join env p n) c \<subseteq>
      file_paths env p (Entry EntryKind_Directory x d t contents)"
proof
  fix q assume "q \<in> file_paths env (path_Join env p n) c"
  then obtain names e' where q: "q = relative_path env (path_Join env p n) names"
    "entry_at c names = Some e'" "Kind e' = EntryKind_File"
    by (auto simp: file_paths_def)
  assume "contents n = Some c"
  with q have "entry_at (Entry EntryKind_Directory x d t contents) (n # names) = Some e'"
    "q = relative_path env p (n # names)"
    by simp_all
  with q(3) show "q \<in> file_paths env p (Entry EntryKind_Directory x d t contents)"
    unfolding file_paths_def by blast
qed

lemma keys_content:
  assumes IH: "\<And>path st e st'. scanner_directory fuel env s path st = Some (Inr e, st') \<Longrightarrow>
      dom (newCache st') \<subseteq> dom (newCache st) \<union> file_paths env path e"
  shows "directory_content fuel env s path name st = Continue st' \<Longrightarrow>
      dom (newCache st') \<subseteq> dom (newCache st)"
    and "directory_content fuel env s path name st = Insert e st' \<Longrightarrow>
      dom (newCache st') \<subseteq> dom (newCache st) \<union> file_paths env (path_Join env path name) e"
proof -
  let ?p = "path_Join env path name"
  let ?st1 = "called (Sys_Lstat (filepath_Join env (root s) ?p)) st"
  show "dom (newCache st') \<subseteq> dom (newCache st)"
    if "directory_content fuel env s path name st = Continue st'"
    using that
    by (cases rule: directory_content_cases [of s env path name fuel st])
      (auto split: prod.splits sum.splits option.splits)
  show "dom (newCache st') \<subseteq> dom (newCache st) \<union> file_paths env ?p e"
    if out: "directory_content fuel env s path name st = Insert e st'"
  proof (cases rule: directory_content_cases [of s env path name fuel st])
    case (regular info)
    from regular(5) out have f: "scanner_file env s ?p info ?st1 = (Inr e, st')"
      by (auto split: prod.splits sum.splits)
    from scanner_file_Inr [OF f] show ?thesis
      by (auto simp: file_paths_leaf)
  next
    case (link info)
    from link(5) out have f: "scanner_symlink env s ?p ?st1 = (Inr e, st')"
      by (auto split: prod.splits sum.splits)
    from scanner_symlink_newCache [OF f] show ?thesis by auto
  next
    case (subdir info)
    from subdir(4) out have d: "scanner_directory fuel env s ?p ?st1 = Some (Inr e, st')"
      by (auto split: option.splits prod.splits sum.splits)
    from IH [OF d] show ?thesis by simp
  qed (use out in simp_all)
qed

lemma keys_loop:
  assumes IH: "\<And>path st e st'. scanner_directory fuel env s path st = Some (Inr e, st') \<Longrightarrow>
      dom (newCache st') \<subseteq> dom (newCache st) \<union> file_paths env path e"
  shows "directory_loop fuel env s path names contents st = Some (Inr contents', st') \<Longrightarrow>
    dom (newCache st') \<subseteq> dom (newCache st) \<union>
      (\<Union>n \<in> set names. case inserted fuel env s path n of
         None \<Rightarrow> {} | Some e \<Rightarrow> file_paths env (path_Join env path n) e)"
proof (induction names arbitrary: contents st)
  case Nil
  then show ?case by simp
next
  case (Cons name names)
  note loop = Cons.prems [unfolded directory_loop_Cons]
  show ?case
  proof (cases "directory_content fuel env s path name st")
    case (Continue st1)
    with loop have "directory_loop fuel env s path names contents st1 = Some (Inr contents', st')"
      by simp
    from Cons.IH [OF this] keys_content(1) [OF IH Continue] show ?thesis by auto
  next
    case (Return err st1)
    with loop show ?thesis by simp
  next
    case (Insert e st2)
    with loop
    have "directory_loop fuel env s path names (contents(name \<mapsto> e)) st2 =
        Some (Inr contents', st')"
      by simp
    from Cons.IH [OF this] keys_content(2) [OF IH Insert] inserted_eq [OF Insert]
    show ?thesis by auto
  next
    case Unfinished
    with loop show ?thesis by simp
  qed
qed

lemma keys_scanner_directory:
  "scanner_directory fuel env s path st = Some (Inr e, st') \<Longrightarrow>
    dom (newCache st') \<subseteq> dom (newCache st) \<union> file_paths env path e"
proof (induction fuel arbitrary: path st e st')
  case 0
  then show ?case by simp
next
  case (Suc fuel)
  let ?st1 = "called (Sys_DirectoryContents (filepath_Join env (root s) path)) st"
  from Suc.prems obtain names contents where
    loop: "directory_loop fuel env s path names Map.empty ?st1 = Some (Inr contents, st')"
    and e: "e = Entry EntryKind_Directory False None [] contents"
    by (auto simp: Let_def split: option.splits sum.splits prod.splits)
  have "(case inserted fuel env s path n of
           None \<Rightarrow> {} | Some e \<Rightarrow> file_paths env (path_Join env path n) e) \<subseteq>
        file_paths env path e" if "n \<in> set names" for n
  proof (cases "inserted fuel env s path n")
    case None
    then show ?thesis by simp
  next
    case (Some c)
    with directory_loop_contents [OF loop, of n] that have "contents n = Some c" by simp
    from file_paths_directory [of contents n c env path False None "[]"] this Some
    show ?thesis unfolding e by simp
  qed
  with keys_loop [OF Suc.IH loop] show ?case by fastforce
qed

subsection \<open>The output cache of a scan\<close>

lemma Scan_root_directory:
  assumes scan: "Scan fuel env root' hasher' cache' ignores ignoreSize' = Some (r, tr)"
    and ig: "newPathIgnorer env ignores = Inr ig"
    and stat: "os_Stat env root' = Inr info" and dir: "fi_Mode info AND ModeDir \<noteq> 0"
  obtains r' st' where
    "scanner_directory fuel env
       \<lparr>root = root', hasher = hasher',
        cache = (case cache' of None \<Rightarrow> Map.empty | Some c \<Rightarrow> c),
        pathIgnorer = ig, ignoreSize = ignoreSize'\<rparr> []
       (called (Sys_Stat root') initial) = Some (r', st')"
    "r = (case r' of Inl err \<Rightarrow> Inl err | Inr e \<Rightarrow> Inr (Some e, newCache st'))"
    "tr = trace st'"
  using assms
  by (auto simp: Scan_def Let_def initial_def split: option.splits sum.splits prod.splits)

lemma Scan_ignorer:
  assumes "Scan fuel env root' hasher' cache' ignores ignoreSize' = Some (Inr x, tr)"
  obtains ig where "newPathIgnorer env ignores = Inr ig"
  using assms by (cases "newPathIgnorer env ignores") (simp_all add: Scan_def)

lemma file_record_Some:
  assumes "file_record env s p = Some v"
  shows "\<not> pathIgnorer s p \<and>
    (\<exists>info. os_Lstat env (filepath_Join env (root s) p) = Inr info \<and>
       fi_Mode info AND ModeType = 0 \<and>
       \<not> (ignoreSize s > 0 \<and> fi_Size info \<ge> ignoreSize s))"
  using assms
  by (auto simp: file_record_def content_kind_File split: if_splits sum.splits)

lemma output_cache_record:
  assumes scan: "Scan fuel env root' hasher' cache' ignores ignoreSize' =
      Some (Inr (rootEntry, c), tr)"
    and ig: "newPathIgnorer env ignores = Inr ig"
    and stat: "os_Stat env root' = Inr info" and dir: "fi_Mode info AND ModeDir \<noteq> 0"
  shows "c \<subseteq>\<^sub>m file_record env
       \<lparr>root = root', hasher = hasher',
        cache = (case cache' of None \<Rightarrow> Map.empty | Some c \<Rightarrow> c),
        pathIgnorer = ig, ignoreSize = ignoreSize'\<rparr>"
proof -
  let ?s = "\<lparr>root = root', hasher = hasher',
        cache = (case cache' of None \<Rightarrow> Map.empty | Some c \<Rightarrow> c),
        pathIgnorer = ig, ignoreSize = ignoreSize'\<rparr>"
  from Scan_root_directory [OF scan ig stat dir] obtain r' st' where
    d: "scanner_directory fuel env ?s [] (called (Sys_Stat root') initial) = Some (r', st')"
    and r: "Inr (rootEntry, c) = (case r' of Inl err \<Rightarrow> Inl err | Inr e \<Rightarrow> Inr (Some e, newCache st'))"
    by blast
  have "newCache (called (Sys_Stat root') initial) \<subseteq>\<^sub>m file_record env ?s"
    by (simp add: initial_def)
  from cache_inv_directory [OF this d] r show ?thesis
    by (cases r') auto
qed

text \<open>
  Claim C7. Every key of the output cache is the relative path of a File entry of the
  snapshot the scan returns. And whatever the input cache holds: below a root that is a
  directory, a key of the output cache is a path that the ignorer does not ignore and
  whose lstat in this scan succeeded and showed a regular file; so a path that has
  vanished, is ignored or is not a regular file is no key of the output cache.
\<close>

theorem output_cache_keys:
  assumes scan: "Scan fuel env root' hasher' cache' ignores ignoreSize' =
      Some (Inr (rootEntry, c), tr)"
    and key: "c p = Some v"
  shows "(\<exists>e names e'. rootEntry = Some e \<and> entry_at e names = Some e' \<and>
      Kind e' = EntryKind_File \<and> p = relative_path env [] names) \<and>
    (\<forall>info. os_Stat env root' = Inr info \<longrightarrow> fi_Mode info AND ModeDir \<noteq> 0 \<longrightarrow>
      (\<exists>ig i. newPathIgnorer env ignores = Inr ig \<and> \<not> ig p \<and>
         os_Lstat env (filepath_Join env root' p) = Inr i \<and> fi_Mode i AND ModeType = 0))"
proof
  from Scan_ignorer [OF scan] obtain ig where ig: "newPathIgnorer env ignores = Inr ig" .
  let ?s = "\<lparr>root = root', hasher = hasher',
         cache = (case cache' of None \<Rightarrow> Map.empty | Some c \<Rightarrow> c),
         pathIgnorer = ig, ignoreSize = ignoreSize'\<rparr>"
  let ?st = "called (Sys_Stat root') initial"
  show "\<exists>e names e'. rootEntry = Some e \<and> entry_at e names = Some e' \<and>
      Kind e' = EntryKind_File \<and> p = relative_path env [] names"
  proof (cases "os_Stat env root'")
    case (Inl err)
    with scan ig key show ?thesis
      by (auto simp: Scan_def Let_def split: if_splits)
  next
    case (Inr info)
    show ?thesis
    proof (cases "fi_Mode info AND ModeDir \<noteq> 0")
      case True
      with scan ig Inr obtain e st' where
        d: "scanner_directory fuel env ?s [] ?st = Some (Inr e, st')"
        and c: "c = newCache st'" and e: "rootEntry = Some e"
        by (auto simp: Scan_def Let_def initial_def split: option.splits sum.splits prod.splits)
      from keys_scanner_directory [OF d] key c have "p \<in> file_paths env [] e"
        by (auto simp: initial_def)
      with e show ?thesis by (auto simp: file_paths_def)
    next
      case False
      with scan ig Inr obtain e st' where
        f: "scanner_file env ?s [] info ?st = (Inr e, st')"
        and c: "c = newCache st'" and e: "rootEntry = Some e"
        by (auto simp: Scan_def Let_def initial_def split: if_splits sum.splits prod.splits)
      from scanner_file_Inr [OF f] key c have "p = []" "Kind e = EntryKind_File"
        by (auto simp: initial_def split: if_splits)
      with e have "rootEntry = Some e \<and> entry_at e [] = Some e \<and>
        Kind e = EntryKind_File \<and> p = relative_path env [] []" by simp
      then show ?thesis by blast
    qed
  qed
  show "\<forall>info. os_Stat env root' = Inr info \<longrightarrow> fi_Mode info AND ModeDir \<noteq> 0 \<longrightarrow>
      (\<exists>ig i. newPathIgnorer env ignores = Inr ig \<and> \<not> ig p \<and>
         os_Lstat env (filepath_Join env root' p) = Inr i \<and> fi_Mode i AND ModeType = 0)"
  proof (intro allI impI)
    fix info assume stat: "os_Stat env root' = Inr info" and dir: "fi_Mode info AND ModeDir \<noteq> 0"
    from output_cache_record [OF scan ig stat dir] key
    have "file_record env ?s p = Some v" by (auto simp: map_le_def dom_def)
    from file_record_Some [OF this] ig show "\<exists>ig i. newPathIgnorer env ignores = Inr ig \<and> \<not> ig p \<and>
         os_Lstat env (filepath_Join env root' p) = Inr i \<and> fi_Mode i AND ModeType = 0"
      by auto
  qed
qed

text \<open>
  The theorem at the key \<open>d/x\<close> of the scan of \<open>/r\<close>, whose input cache has entries
  for the vanished \<open>gone\<close>, the oversized \<open>big\<close> and the directory \<open>d\<close>.
\<close>

theorem output_cache_keys_witness:
  "Scan 2 example_env ''/r'' example_hasher (Some example_old_cache) [] 50 =
     Some (Inr (Some example_snapshot, example_newCache), example_trace) \<and>
   example_newCache ''d/x'' =
     Some \<lparr>ce_Mode = 0x1A4, ce_ModificationTime = 9, ce_Size = 3,
           ce_Digest = Some [9, 8, 7]\<rparr> \<and>
   (\<exists>names e'. entry_at example_snapshot names = Some e' \<and>
      Kind e' = EntryKind_File \<and> ''d/x'' = relative_path example_env [] names) \<and>
   (\<exists>i. os_Lstat example_env ''/r/d/x'' = Inr i \<and> fi_Mode i AND ModeType = 0)"
proof -
  have key: "example_newCache ''d/x'' =
     Some \<lparr>ce_Mode = 0x1A4, ce_ModificationTime = 9, ce_Size = 3,
           ce_Digest = Some [9, 8, 7]\<rparr>"
    by (simp add: example_newCache_def)
  have stat: "os_Stat example_env ''/r'' =
      Inr \<lparr>fi_Mode = ModeDir OR 0x1ED, fi_ModTime = 3, fi_Size = 4096\<rparr>"
    "fi_Mode \<lparr>fi_Mode = ModeDir OR 0x1ED, fi_ModTime = 3, fi_Size = 4096\<rparr> AND ModeDir \<noteq> 0"
    by (simp_all add: example_defs mode_defs)
  from output_cache_keys [OF example_scan key] stat
  have "(\<exists>names e'. entry_at example_snapshot names = Some e' \<and>
      Kind e' = EntryKind_File \<and> ''d/x'' = relative_path example_env [] names) \<and>
   (\<exists>i. os_Lstat example_env ''/r/d/x'' = Inr i \<and> fi_Mode i AND ModeType = 0)"
    by (auto simp: example_env_def example_join_def)
  with example_scan key show ?thesis by blast
qed

subsection \<open>A directory scan stops at the first system call that fails\<close>

lemma fail_fast_simps [simp]:
  "fail_fast env (Inr x) tr \<longleftrightarrow> (\<forall>c \<in> set tr. call_error env c = None)"
  "fail_fast env (Inl err) tr \<longleftrightarrow>
    (\<exists>c tr'. tr = c # tr' \<and> call_error env c = Some err \<and>
       (\<forall>c \<in> set tr'. call_error env c = None))"
  by (simp_all add: fail_fast_def)







subsection \<open>Failures of the per-child lstat\<close>









subsection \<open>Failures of hashing\<close>







subsection \<open>The size limit\<close>

lemma content_kind_Directory:
  "fi_Mode info AND ModeDir \<noteq> 0 \<Longrightarrow> content_kind info = Some EntryKind_Directory"
  by (simp add: content_kind_def)

lemma content_kind_Symlink:
  "fi_Mode info AND ModeDir = 0 \<Longrightarrow> fi_Mode info AND ModeSymlink \<noteq> 0 \<Longrightarrow>
    content_kind info = Some EntryKind_Symlink"
  by (simp add: content_kind_def)

lemma directory_loop_regular:
  assumes "\<not> pathIgnorer s (path_Join env path name)"
    and "os_Lstat env (filepath_Join env (root s) (path_Join env path name)) = Inr info"
    and "fi_Mode info AND ModeType = 0"
  shows "directory_loop fuel env s path (name # names) contents st =
    (if 0 < ignoreSize s \<and> ignoreSize s \<le> fi_Size info
     then directory_loop fuel env s path names contents
            (called (Sys_Lstat (filepath_Join env (root s) (path_Join env path name))) st)
     else (case scanner_file env s (path_Join env path name) info
                 (called (Sys_Lstat (filepath_Join env (root s) (path_Join env path name))) st) of
             (Inl err, st2) \<Rightarrow> Some (Inl err, st2)
           | (Inr e, st2) \<Rightarrow>
               directory_loop fuel env s path names (contents(name \<mapsto> e)) st2))"
  using assms(1,2) content_kind_File [THEN iffD2, OF assms(3)]
  by (simp add: directory_loop_Cons directory_content_def Let_def
      split: prod.split sum.split)

lemma directory_loop_subdirectory:
  assumes "\<not> pathIgnorer s (path_Join env path name)"
    and "os_Lstat env (filepath_Join env (root s) (path_Join env path name)) = Inr info"
    and "fi_Mode info AND ModeDir \<noteq> 0"
  shows "directory_loop fuel env s path (name # names) contents st =
    (case scanner_directory fuel env s (path_Join env path name)
            (called (Sys_Lstat (filepath_Join env (root s) (path_Join env path name))) st) of
       None \<Rightarrow> None
     | Some (Inl err, st2) \<Rightarrow> Some (Inl err, st2)
     | Some (Inr e, st2) \<Rightarrow> directory_loop fuel env s path names (contents(name \<mapsto> e)) st2)"
  using assms(1,2) content_kind_Directory [OF assms(3)]
  by (simp add: directory_loop_Cons directory_content_def Let_def
      split: option.split prod.split sum.split)

lemma directory_loop_symlink:
  assumes "\<not> pathIgnorer s (path_Join env path name)"
    and "os_Lstat env (filepath_Join env (root s) (path_Join env path name)) = Inr info"
    and "fi_Mode info AND ModeDir = 0" and "fi_Mode info AND ModeSymlink \<noteq> 0"
  shows "directory_loop fuel env s path (name # names) contents st =
    (if symlinksSupported env
     then (case scanner_symlink env s (path_Join env path name)
                 (called (Sys_Lstat (filepath_Join env (root s) (path_Join env path name))) st) of
             (Inl err, st2) \<Rightarrow> Some (Inl err, st2)
           | (Inr e, st2) \<Rightarrow>
               directory_loop fuel env s path names (contents(name \<mapsto> e)) st2)
     else directory_loop fuel env s path names contents
            (called (Sys_Lstat (filepath_Join env (root s) (path_Join env path name))) st))"
  using assms(1,2) content_kind_Symlink [OF assms(3,4)]
  by (simp add: directory_loop_Cons directory_content_def Let_def
      split: prod.split sum.split)

lemma Scan_files_ok:
  assumes scan: "Scan fuel env root' hasher' cache' ignores ignoreSize' =
      Some (Inr (Some rootEntry, c), tr)"
    and ig: "newPathIgnorer env ignores = Inr ig"
    and stat: "os_Stat env root' = Inr info" and dir: "fi_Mode info AND ModeDir \<noteq> 0"
  shows "files_ok env
       \<lparr>root = root', hasher = hasher',
        cache = (case cache' of None \<Rightarrow> Map.empty | Some c \<Rightarrow> c),
        pathIgnorer = ig, ignoreSize = ignoreSize'\<rparr> c [] rootEntry"
proof -
  let ?s = "\<lparr>root = root', hasher = hasher',
        cache = (case cache' of None \<Rightarrow> Map.empty | Some c \<Rightarrow> c),
        pathIgnorer = ig, ignoreSize = ignoreSize'\<rparr>"
  from Scan_root_directory [OF scan ig stat dir] obtain r' st' where
    d: "scanner_directory fuel env ?s [] (called (Sys_Stat root') initial) = Some (r', st')"
    and r: "Inr (Some rootEntry, c) =
      (case r' of Inl err \<Rightarrow> Inl err | Inr e \<Rightarrow> Inr (Some e, newCache st'))"
    by blast
  from r have r': "r' = Inr rootEntry" "c = newCache st'"
    by (cases r'; simp)+
  have "newCache (called (Sys_Stat root') initial) \<subseteq>\<^sub>m file_record env ?s"
    by (simp add: initial_def)
  from files_ok_scanner_directory [OF this d [unfolded r'(1)]] r'(2) show ?thesis by simp
qed

lemma Scan_size_filtered_absent:
  assumes scan: "Scan fuel env root' hasher' cache' ignores ignoreSize' =
      Some (Inr (Some rootEntry, c), tr)"
    and stat: "os_Stat env root' = Inr rinfo" and dir: "fi_Mode rinfo AND ModeDir \<noteq> 0"
    and q: "c q \<noteq> None \<or>
      (\<exists>e. entry_at rootEntry names = Some e \<and> Kind e = EntryKind_File \<and>
         q = relative_path env [] names)"
  shows "\<exists>i. os_Lstat env (filepath_Join env root' q) = Inr i \<and>
    \<not> (0 < ignoreSize' \<and> ignoreSize' \<le> fi_Size i)"
proof -
  from Scan_ignorer [OF scan] obtain ig where ig: "newPathIgnorer env ignores = Inr ig" .
  let ?s = "\<lparr>root = root', hasher = hasher',
        cache = (case cache' of None \<Rightarrow> Map.empty | Some c \<Rightarrow> c),
        pathIgnorer = ig, ignoreSize = ignoreSize'\<rparr>"
  have "c q \<noteq> None"
  proof (rule disjE [OF q])
    assume "\<exists>e. entry_at rootEntry names = Some e \<and> Kind e = EntryKind_File \<and>
         q = relative_path env [] names"
    with Scan_files_ok [OF scan ig stat dir] show ?thesis
      unfolding files_ok_def by fastforce
  qed
  then obtain v where "c q = Some v" by blast
  with output_cache_record [OF scan ig stat dir] have "file_record env ?s q = Some v"
    by (auto simp: map_le_def dom_def)
  from file_record_Some [OF this] show ?thesis by auto
qed

text \<open>
  A scan that returns a snapshot had a root that is a directory, or one that is a regular
  file and was handed to \<open>scanner.file\<close>.
\<close>

lemma Scan_root_kind:
  assumes scan: "Scan fuel env root' hasher' cache' ignores ignoreSize' =
      Some (Inr (Some rootEntry, c), tr)"
  obtains ig info where "newPathIgnorer env ignores = Inr ig" "os_Stat env root' = Inr info"
    "fi_Mode info AND ModeDir \<noteq> 0" "Kind rootEntry = EntryKind_Directory"
  | ig info st' where "newPathIgnorer env ignores = Inr ig" "os_Stat env root' = Inr info"
    "fi_Mode info AND ModeDir = 0"
    "scanner_file env
       \<lparr>root = root', hasher = hasher',
        cache = (case cache' of None \<Rightarrow> Map.empty | Some c \<Rightarrow> c),
        pathIgnorer = ig, ignoreSize = ignoreSize'\<rparr> [] info
       (called (Sys_Stat root') initial) = (Inr rootEntry, st')"
    "c = newCache st'" "tr = trace st'"
proof -
  from Scan_ignorer [OF scan] obtain ig where ig: "newPathIgnorer env ignores = Inr ig" .
  from scan ig obtain info where info: "os_Stat env root' = Inr info"
    by (cases "os_Stat env root'") (auto simp: Scan_def Let_def split: if_splits)
  let ?s = "\<lparr>root = root', hasher = hasher',
        cache = (case cache' of None \<Rightarrow> Map.empty | Some c \<Rightarrow> c),
        pathIgnorer = ig, ignoreSize = ignoreSize'\<rparr>"
  show ?thesis
  proof (cases "fi_Mode info AND ModeDir \<noteq> 0")
    case True
    from Scan_root_directory [OF scan ig info True] obtain r' st' where
      d: "scanner_directory fuel env ?s [] (called (Sys_Stat root') initial) = Some (r', st')"
      and r: "Inr (Some rootEntry, c) =
        (case r' of Inl err \<Rightarrow> Inl err | Inr e \<Rightarrow> Inr (Some e, newCache st'))"
      by blast
    from r have "r' = Inr rootEntry" by (cases r') simp_all
    with d scanner_directory_Kind have "Kind rootEntry = EntryKind_Directory" by blast
    with ig info True that(1) show ?thesis by blast
  next
    case False
    with scan ig info obtain st' where
      "scanner_file env ?s [] info (called (Sys_Stat root') initial) = (Inr rootEntry, st')"
      "c = newCache st'" "tr = trace st'"
      by (auto simp: Scan_def Let_def initial_def split: if_splits sum.splits prod.splits)
    with ig info False that(2) show ?thesis by blast
  qed
qed

lemma entry_at_append:
  "entry_at e (ns @ [n]) = (case entry_at e ns of None \<Rightarrow> None | Some d \<Rightarrow> Contents d n)"
  by (induction ns arbitrary: e) (auto split: option.splits)

lemma relative_path_append:
  "relative_path env p (ns @ [n]) = path_Join env (relative_path env p ns) n"
  by (simp add: relative_path_def)

lemma directory_content_regular:
  assumes "\<not> pathIgnorer s (path_Join env path name)"
    and "os_Lstat env (filepath_Join env (root s) (path_Join env path name)) = Inr info"
    and "fi_Mode info AND ModeType = 0"
  shows "directory_content fuel env s path name st =
    (if 0 < ignoreSize s \<and> ignoreSize s \<le> fi_Size info
     then Continue (called (Sys_Lstat (filepath_Join env (root s) (path_Join env path name))) st)
     else (case scanner_file env s (path_Join env path name) info
                 (called (Sys_Lstat (filepath_Join env (root s) (path_Join env path name))) st) of
             (Inl err, st2) \<Rightarrow> Return err st2
           | (Inr e, st2) \<Rightarrow> Insert e st2))"
  using assms(1,2) content_kind_File [THEN iffD2, OF assms(3)]
  by (simp add: directory_content_def Let_def split: prod.split sum.split)

lemma directory_content_subdirectory:
  assumes "\<not> pathIgnorer s (path_Join env path name)"
    and "os_Lstat env (filepath_Join env (root s) (path_Join env path name)) = Inr info"
    and "fi_Mode info AND ModeDir \<noteq> 0"
  shows "directory_content fuel env s path name st =
    (case scanner_directory fuel env s (path_Join env path name)
            (called (Sys_Lstat (filepath_Join env (root s) (path_Join env path name))) st) of
       None \<Rightarrow> Unfinished
     | Some (Inl err, st2) \<Rightarrow> Return err st2
     | Some (Inr e, st2) \<Rightarrow> Insert e st2)"
  using assms(1,2) content_kind_Directory [OF assms(3)]
  by (simp add: directory_content_def Let_def split: option.split prod.split sum.split)

lemma directory_content_symlink:
  assumes "\<not> pathIgnorer s (path_Join env path name)"
    and "os_Lstat env (filepath_Join env (root s) (path_Join env path name)) = Inr info"
    and "fi_Mode info AND ModeDir = 0" and "fi_Mode info AND ModeSymlink \<noteq> 0"
    and "symlinksSupported env"
  shows "directory_content fuel env s path name st =
    (case scanner_symlink env s (path_Join env path name)
            (called (Sys_Lstat (filepath_Join env (root s) (path_Join env path name))) st) of
       (Inl err, st2) \<Rightarrow> Return err st2
     | (Inr e, st2) \<Rightarrow> Insert e st2)"
  using assms(1,2,5) content_kind_Symlink [OF assms(3,4)]
  by (simp add: directory_content_def Let_def split: prod.split sum.split)

text \<open>
  Every Directory entry of a snapshot is what \<open>scanner.directory\<close> returned for the
  entry's relative path, and a directory scan that succeeds has, for each name of the
  listing, either skipped it or added the entry it made of it.
\<close>

lemma scanned_at:
  "scanner_directory fuel env s path st = Some (Inr e, st') \<Longrightarrow>
    entry_at e names = Some d \<Longrightarrow> Kind d = EntryKind_Directory \<Longrightarrow>
    \<exists>fuel' st1 st2.
      scanner_directory fuel' env s (relative_path env path names) st1 = Some (Inr d, st2)"
proof (induction fuel arbitrary: path st e st' names)
  case 0
  then show ?case by simp
next
  case (Suc fuel)
  show ?case
  proof (cases names)
    case Nil
    with Suc.prems(2) have "e = d" by simp
    with Suc.prems(1) Nil show ?thesis
      by (intro exI [of _ "Suc fuel"] exI [of _ st] exI [of _ st'])
        (simp del: scanner_directory.simps)
  next
    case (Cons n ns)
    let ?st1 = "called (Sys_DirectoryContents (filepath_Join env (root s) path)) st"
    from Suc.prems(1) obtain listing contents where
      loop: "directory_loop fuel env s path listing Map.empty ?st1 = Some (Inr contents, st')"
      and e: "e = Entry EntryKind_Directory False None [] contents"
      by (auto simp: Let_def split: option.splits sum.splits prod.splits)
    from Suc.prems(2) Cons e obtain c' where c': "contents n = Some c'" "entry_at c' ns = Some d"
      by (auto split: option.splits)
    from directory_loop_contents [OF loop, of n] c'(1)
    have "inserted fuel env s path n = Some c'"
      by (simp split: if_splits)
    then obtain st2 where out: "directory_content fuel env s path n initial = Insert c' st2"
      by (auto simp: inserted_def split: outcome.splits)
    let ?p = "path_Join env path n"
    let ?i = "called (Sys_Lstat (filepath_Join env (root s) ?p)) initial"
    show ?thesis
    proof (cases rule: directory_content_cases [of s env path n fuel initial])
      case (regular info)
      from regular(5) out have f: "scanner_file env s ?p info ?i = (Inr c', st2)"
        by (auto split: prod.splits sum.splits)
      from scanner_file_Inr [OF f] c'(2) Suc.prems(3) show ?thesis
        by (simp add: entry_at_leaf)
    next
      case (link info)
      from link(5) out have f: "scanner_symlink env s ?p ?i = (Inr c', st2)"
        by (auto split: prod.splits sum.splits)
      from scanner_symlink_Inr [OF f] c'(2) Suc.prems(3) show ?thesis
        by (simp add: entry_at_leaf)
    next
      case (subdir info)
      from subdir(4) out have "scanner_directory fuel env s ?p ?i = Some (Inr c', st2)"
        by (auto split: option.splits prod.splits sum.splits)
      from Suc.IH [OF this c'(2) Suc.prems(3)] Cons show ?thesis by simp
    qed (use out in simp_all)
  qed
qed

lemma directory_loop_no_failure:
  "directory_loop fuel env s path names contents st = Some (Inr contents', st') \<Longrightarrow>
    n \<in> set names \<Longrightarrow>
    (\<exists>st1. directory_content fuel env s path n initial = Continue st1) \<or>
    (\<exists>e st1. directory_content fuel env s path n initial = Insert e st1)"
proof (induction names arbitrary: contents st)
  case Nil
  then show ?case by simp
next
  case (Cons name names)
  note loop = Cons.prems(1) [unfolded directory_loop_Cons]
  note fe = forget_eq_cases [OF directory_content_forget [OF scanner_directory_fst,
      of fuel env s path name st initial]]
  show ?case
  proof (cases "directory_content fuel env s path name st")
    case (Continue st1)
    with loop have l: "directory_loop fuel env s path names contents st1 = Some (Inr contents', st')"
      by simp
    show ?thesis
    proof (cases "n = name")
      case True
      with fe Continue show ?thesis by auto
    next
      case False
      with Cons.prems(2) have "n \<in> set names" by simp
      from Cons.IH [OF l this] show ?thesis .
    qed
  next
    case (Return err st1)
    with loop show ?thesis by simp
  next
    case (Insert e st2)
    with loop
    have l: "directory_loop fuel env s path names (contents(name \<mapsto> e)) st2 =
        Some (Inr contents', st')"
      by simp
    show ?thesis
    proof (cases "n = name")
      case True
      with fe Insert show ?thesis by auto
    next
      case False
      with Cons.prems(2) have "n \<in> set names" by simp
      from Cons.IH [OF l this] show ?thesis .
    qed
  next
    case Unfinished
    with loop show ?thesis by simp
  qed
qed

lemma scanner_directory_listed:
  assumes d: "scanner_directory fuel env s path st = Some (Inr d, st')"
    and listing: "filesystem_DirectoryContents env (filepath_Join env (root s) path) = Inr listing"
    and n: "n \<in> set listing"
  obtains fuel' st1 where "directory_content fuel' env s path n initial = Continue st1"
    "Contents d n = None"
  | fuel' e st1 where "directory_content fuel' env s path n initial = Insert e st1"
    "Contents d n = Some e"
proof -
  from d obtain fuel' where fuel: "fuel = Suc fuel'" by (cases fuel) simp_all
  let ?st1 = "called (Sys_DirectoryContents (filepath_Join env (root s) path)) st"
  from d listing fuel obtain contents where
    loop: "directory_loop fuel' env s path listing Map.empty ?st1 = Some (Inr contents, st')"
    and e: "d = Entry EntryKind_Directory False None [] contents"
    by (auto simp: Let_def split: option.splits sum.splits prod.splits)
  from directory_loop_contents [OF loop, of n] n e
  have c: "Contents d n = inserted fuel' env s path n"
    by (simp split: if_splits)
  from directory_loop_no_failure [OF loop n] show ?thesis
  proof (elim disjE exE)
    fix st1 assume o: "directory_content fuel' env s path n initial = Continue st1"
    with c have "Contents d n = None" by (simp add: inserted_def)
    with o that(1) show ?thesis by blast
  next
    fix e' st1 assume o: "directory_content fuel' env s path n initial = Insert e' st1"
    with c have "Contents d n = Some e'" by (simp add: inserted_def)
    with o that(2) show ?thesis by blast
  qed
qed

text \<open>
  Claim C6, as amended. In a scan that succeeds, take a directory of the snapshot and a
  name that the directory lists, whose path the ignorer does not ignore and whose lstat
  succeeds. If the lstat shows a regular file, the file is absent from the snapshot and
  from the output cache if and only if the size limit is positive and the file's size is
  greater than or equal to the limit; otherwise it is a File entry of the snapshot and a
  key of the output cache. So with the limit 0 no file is left out for its size. A
  directory is always an entry of the snapshot, and so is a symbolic link where links are
  supported, whatever their size and the limit.
\<close>

theorem size_limit_filter:
  fixes env :: environment and root' :: string and names :: "string list" and name :: string
  defines "p \<equiv> relative_path env [] (names @ [name])"
  assumes scan: "Scan fuel env root' hasher' cache' ignores ignoreSize' =
      Some (Inr (Some rootEntry, c), tr)"
    and ig: "newPathIgnorer env ignores = Inr ig"
    and d: "entry_at rootEntry names = Some d" and kd: "Kind d = EntryKind_Directory"
    and listing: "filesystem_DirectoryContents env
        (filepath_Join env root' (relative_path env [] names)) = Inr listing"
    and n: "name \<in> set listing"
    and ni: "\<not> ig p"
    and l: "os_Lstat env (filepath_Join env root' p) = Inr info"
  shows "(fi_Mode info AND ModeType = 0 \<longrightarrow>
      ((Contents d name = None \<and> c p = None) \<longleftrightarrow>
         0 < ignoreSize' \<and> ignoreSize' \<le> fi_Size info) \<and>
      (\<not> (0 < ignoreSize' \<and> ignoreSize' \<le> fi_Size info) \<longrightarrow>
         (\<exists>e. Contents d name = Some e \<and> Kind e = EntryKind_File) \<and> c p \<noteq> None)) \<and>
    (fi_Mode info AND ModeDir \<noteq> 0 \<longrightarrow>
      (\<exists>e. Contents d name = Some e \<and> Kind e = EntryKind_Directory)) \<and>
    (fi_Mode info AND ModeDir = 0 \<longrightarrow> fi_Mode info AND ModeSymlink \<noteq> 0 \<longrightarrow>
      symlinksSupported env \<longrightarrow>
      (\<exists>e. Contents d name = Some e \<and> Kind e = EntryKind_Symlink))"
proof -
  let ?s = "\<lparr>root = root', hasher = hasher',
        cache = (case cache' of None \<Rightarrow> Map.empty | Some c \<Rightarrow> c),
        pathIgnorer = ig, ignoreSize = ignoreSize'\<rparr>"
  let ?path = "relative_path env [] names"
  have p: "p = path_Join env ?path name"
    by (simp add: p_def relative_path_append)
  obtain rinfo where stat: "os_Stat env root' = Inr rinfo"
    and dir: "fi_Mode rinfo AND ModeDir \<noteq> 0"
  proof (cases rule: Scan_root_kind [OF scan])
    case (1 ig' rinfo)
    with that show ?thesis by blast
  next
    case (2 ig' rinfo st')
    from scanner_file_Inr [OF 2(4)] d kd show ?thesis
      by (simp add: entry_at_leaf)
  qed
  from Scan_root_directory [OF scan ig stat dir] obtain r' st' where
    d0: "scanner_directory fuel env ?s [] (called (Sys_Stat root') initial) = Some (r', st')"
    and r: "Inr (Some rootEntry, c) =
      (case r' of Inl err \<Rightarrow> Inl err | Inr e \<Rightarrow> Inr (Some e, newCache st'))"
    by blast
  from r have "r' = Inr rootEntry" by (cases r') simp_all
  with d0 have "scanner_directory fuel env ?s [] (called (Sys_Stat root') initial) =
      Some (Inr rootEntry, st')" by simp
  from scanned_at [OF this d kd] obtain fuel' st1 st2 where
    sd: "scanner_directory fuel' env ?s ?path st1 = Some (Inr d, st2)"
    by blast
  have ni': "\<not> pathIgnorer ?s (path_Join env ?path name)"
    and l': "os_Lstat env (filepath_Join env (root ?s) (path_Join env ?path name)) = Inr info"
    and listing': "filesystem_DirectoryContents env (filepath_Join env (root ?s) ?path) =
      Inr listing"
    using ni l listing by (simp_all add: p)
  note fo = Scan_files_ok [OF scan ig stat dir]
  note rec = output_cache_record [OF scan ig stat dir]
  have present: "c p \<noteq> None" if "Contents d name = Some e" "Kind e = EntryKind_File" for e
  proof -
    from that(1) d have "entry_at rootEntry (names @ [name]) = Some e"
      by (simp add: entry_at_append)
    with fo that(2) show ?thesis
      unfolding files_ok_def p_def by fastforce
  qed
  have regular: "((Contents d name = None \<and> c p = None) \<longleftrightarrow>
         0 < ignoreSize' \<and> ignoreSize' \<le> fi_Size info) \<and>
      (\<not> (0 < ignoreSize' \<and> ignoreSize' \<le> fi_Size info) \<longrightarrow>
         (\<exists>e. Contents d name = Some e \<and> Kind e = EntryKind_File) \<and> c p \<noteq> None)"
    if reg: "fi_Mode info AND ModeType = 0"
  proof (cases "0 < ignoreSize' \<and> ignoreSize' \<le> fi_Size info")
    case True
    note dc = directory_content_regular [OF ni' l' reg]
    from True have "Contents d name = None"
      by (cases rule: scanner_directory_listed [OF sd listing' n]) (simp_all add: dc)
    moreover have "file_record env ?s p = None"
      using True l content_kind_File [THEN iffD2, OF reg] by (simp add: file_record_def)
    with rec have "c p = None"
      by (cases "c p") (auto simp: map_le_def dom_def)
    ultimately show ?thesis using True by simp
  next
    case False
    have dc: "directory_content f env ?s ?path name st =
      (case scanner_file env ?s (path_Join env ?path name) info
              (called (Sys_Lstat (filepath_Join env (root ?s) (path_Join env ?path name))) st) of
         (Inl err, st2) \<Rightarrow> Return err st2
       | (Inr e, st2) \<Rightarrow> Insert e st2)" for f st
      unfolding directory_content_regular [OF ni' l' reg]
      using False by (simp only: scanner.simps if_False)
    have "\<exists>e. Contents d name = Some e \<and> Kind e = EntryKind_File"
    proof (cases rule: scanner_directory_listed [OF sd listing' n])
      case (1 fuel'' st3)
      then show ?thesis by (simp add: dc split: prod.splits sum.splits)
    next
      case (2 fuel'' e st3)
      from 2(1) obtain st4 where
        "scanner_file env ?s (path_Join env ?path name) info st4 = (Inr e, st3)"
        by (auto simp: dc split: prod.splits sum.splits)
      from scanner_file_Inr [OF this] 2(2) show ?thesis by simp
    qed
    with present False show ?thesis by auto
  qed
  have directory: "\<exists>e. Contents d name = Some e \<and> Kind e = EntryKind_Directory"
    if md: "fi_Mode info AND ModeDir \<noteq> 0"
  proof (cases rule: scanner_directory_listed [OF sd listing' n])
    case (1 fuel'' st3)
    then show ?thesis
      by (simp add: directory_content_subdirectory [OF ni' l' md]
          split: option.splits prod.splits sum.splits)
  next
    case (2 fuel'' e st3)
    from 2(1) obtain st4 where
      "scanner_directory fuel'' env ?s (path_Join env ?path name) st4 = Some (Inr e, st3)"
      by (auto simp: directory_content_subdirectory [OF ni' l' md]
          split: option.splits prod.splits sum.splits)
    from scanner_directory_Kind [OF this] 2(2) show ?thesis by simp
  qed
  have symlink: "\<exists>e. Contents d name = Some e \<and> Kind e = EntryKind_Symlink"
    if ms: "fi_Mode info AND ModeDir = 0" "fi_Mode info AND ModeSymlink \<noteq> 0"
      and sup: "symlinksSupported env"
  proof (cases rule: scanner_directory_listed [OF sd listing' n])
    case (1 fuel'' st3)
    then show ?thesis
      by (simp add: directory_content_symlink [OF ni' l' ms sup]
          split: prod.splits sum.splits)
  next
    case (2 fuel'' e st3)
    from 2(1) obtain st4 where
      "scanner_symlink env ?s (path_Join env ?path name) st4 = (Inr e, st3)"
      by (auto simp: directory_content_symlink [OF ni' l' ms sup]
          split: prod.splits sum.splits)
    from scanner_symlink_Inr [OF this] 2(2) show ?thesis by simp
  qed
  from regular directory symlink show ?thesis by blast
qed

text \<open>
  The theorem in the scan of \<open>/r\<close> with the limit 50: \<open>big\<close>, of 100 bytes, is in
  neither the snapshot nor the output cache; \<open>a\<close>, of two bytes, is in both.
\<close>

theorem size_limit_filter_witness:
  "Scan 2 example_env ''/r'' example_hasher (Some example_old_cache) [] 50 =
     Some (Inr (Some example_snapshot, example_newCache), example_trace) \<and>
   filesystem_DirectoryContents example_env ''/r'' = Inr [''a'', ''gone'', ''big'', ''d''] \<and>
   os_Lstat example_env ''/r/big'' = Inr \<lparr>fi_Mode = 0x1A4, fi_ModTime = 6, fi_Size = 100\<rparr> \<and>
   Contents example_snapshot ''big'' = None \<and> example_newCache ''big'' = None \<and>
   os_Lstat example_env ''/r/a'' = Inr \<lparr>fi_Mode = 0x1ED, fi_ModTime = 5, fi_Size = 2\<rparr> \<and>
   (\<exists>e. Contents example_snapshot ''a'' = Some e \<and> Kind e = EntryKind_File) \<and>
   example_newCache ''a'' \<noteq> None"
proof -
  let ?big = "\<lparr>fi_Mode = 0x1A4, fi_ModTime = 6, fi_Size = 100\<rparr>"
  let ?a = "\<lparr>fi_Mode = 0x1ED, fi_ModTime = 5, fi_Size = 2\<rparr>"
  have ig: "newPathIgnorer example_env [] = Inr (\<lambda>path. path \<in> set [])"
    by (simp add: example_defs)
  have at: "entry_at example_snapshot [] = Some example_snapshot"
    "Kind example_snapshot = EntryKind_Directory"
    by (simp_all add: example_snapshot_def)
  have listing: "filesystem_DirectoryContents example_env
      (filepath_Join example_env ''/r'' (relative_path example_env [] [])) =
      Inr [''a'', ''gone'', ''big'', ''d'']"
    by (simp add: example_defs)
  have big: "os_Lstat example_env
      (filepath_Join example_env ''/r'' (relative_path example_env [] ([] @ [''big'']))) = Inr ?big"
    "fi_Mode ?big AND ModeType = 0" "(0 :: 64 word) < 50 \<and> (50 :: 64 word) \<le> fi_Size ?big"
    by (simp_all add: example_defs mode_defs)
  have a: "os_Lstat example_env
      (filepath_Join example_env ''/r'' (relative_path example_env [] ([] @ [''a'']))) = Inr ?a"
    "fi_Mode ?a AND ModeType = 0" "\<not> ((0 :: 64 word) < 50 \<and> (50 :: 64 word) \<le> fi_Size ?a)"
    by (simp_all add: example_defs mode_defs)
  have p: "path_Join example_env [] ''big'' = ''big''"
    "path_Join example_env [] ''a'' = ''a''"
    by (simp_all add: example_defs)
  from size_limit_filter [OF example_scan ig at listing _ _ big(1)] big(2,3)
  have 1: "Contents example_snapshot ''big'' = None \<and> example_newCache ''big'' = None"
    by (simp add: p)
  from size_limit_filter [OF example_scan ig at listing _ _ a(1)] a(2,3)
  have 2: "(\<exists>e. Contents example_snapshot ''a'' = Some e \<and> Kind e = EntryKind_File) \<and>
      example_newCache ''a'' \<noteq> None"
    by (simp add: p)
  from 1 2 example_scan listing big(1) a(1) show ?thesis
    by (simp add: example_defs)
qed

text \<open>
  Claim C6 as first stated (a regular file is skipped only if it is at or over the limit)
  fails for an ignored file: with \<open>a\<close> in the ignore list, the regular file \<open>a\<close> of two
  bytes is absent from the snapshot and the output cache although the limit is 50. The
  loop skips an ignored path before it looks at the size.
\<close>

theorem ignored_small_file_counterexample:
  "Scan 2 example_env ''/r'' example_hasher None [''a''] 50 =
     Some (Inr (Some example_ignoring_snapshot, example_ignoring_newCache),
           example_ignoring_trace) \<and>
   filesystem_DirectoryContents example_env ''/r'' = Inr [''a'', ''gone'', ''big'', ''d''] \<and>
   os_Lstat example_env ''/r/a'' = Inr \<lparr>fi_Mode = 0x1ED, fi_ModTime = 5, fi_Size = 2\<rparr> \<and>
   (0x1ED :: 32 word) AND ModeType = 0 \<and>
   (2 :: 64 word) < 50 \<and>
   Contents example_ignoring_snapshot ''a'' = None \<and>
   example_ignoring_newCache ''a'' = None"
proof -
  have "Scan (Suc (Suc 0)) example_env ''/r'' example_hasher None [''a''] 50 =
    Some (Inr (Some example_ignoring_snapshot, example_ignoring_newCache),
          example_ignoring_trace)"
    by (simp add: Scan_def directory_loop_Cons directory_content_def
        scanner_file_def cache_match_def io_CopyBuffer_def content_kind_def called_def Let_def
        example_ignoring_snapshot_def example_ignoring_newCache_def example_ignoring_trace_def
        example_defs mode_defs)
  then have "Scan 2 example_env ''/r'' example_hasher None [''a''] 50 =
    Some (Inr (Some example_ignoring_snapshot, example_ignoring_newCache),
          example_ignoring_trace)"
    by (simp only: numeral_2_eq_2)
  then show ?thesis
    by (simp add: example_ignoring_snapshot_def example_ignoring_newCache_def
        example_defs mode_defs)
qed

subsection \<open>The files a scan opens\<close>

text \<open>
  A directory scan that succeeds opens, beyond what was opened before it, exactly the
  files of \<open>hashed_files\<close>: the File entries below the directory for which the input
  cache has nothing to reuse.
\<close>

lemma opens_simps [simp]:
  "opens [] = {}"
  "opens (Sys_Open n # tr) = insert n (opens tr)"
  "opens (Sys_Stat n # tr) = opens tr"
  "opens (Sys_Lstat n # tr) = opens tr"
  "opens (Sys_Readlink n # tr) = opens tr"
  "opens (Sys_DirectoryContents n # tr) = opens tr"
  by (auto simp: opens_def)

lemma hashed_files_leaf:
  "Contents e = Map.empty \<Longrightarrow>
    hashed_files env s p e =
      (if Kind e = EntryKind_File \<and>
          (\<exists>info. os_Lstat env (filepath_Join env (root s) p) = Inr info \<and> \<not> reusable s p info)
       then {filepath_Join env (root s) p} else {})"
  by (auto simp: hashed_files_def entry_at_leaf)

lemma hashed_files_directory:
  "hashed_files env s p (Entry EntryKind_Directory x d t contents) =
    (\<Union>n \<in> dom contents. hashed_files env s (path_Join env p n) (the (contents n)))"
proof (intro set_eqI iffI)
  fix q assume "q \<in> hashed_files env s p (Entry EntryKind_Directory x d t contents)"
  then obtain names e' info where
    q: "q = filepath_Join env (root s) (relative_path env p names)"
    and at: "entry_at (Entry EntryKind_Directory x d t contents) names = Some e'"
    and k: "Kind e' = EntryKind_File"
    and l: "os_Lstat env (filepath_Join env (root s) (relative_path env p names)) = Inr info"
    and r: "\<not> reusable s (relative_path env p names) info"
    unfolding hashed_files_def by blast
  show "q \<in> (\<Union>n \<in> dom contents. hashed_files env s (path_Join env p n) (the (contents n)))"
  proof (cases names)
    case Nil
    with at k show ?thesis by auto
  next
    case (Cons n ns)
    with at obtain c where c: "contents n = Some c" "entry_at c ns = Some e'"
      by (auto split: option.splits)
    from q l r k c(2) Cons have "q \<in> hashed_files env s (path_Join env p n) c"
      unfolding hashed_files_def by auto
    with c(1) show ?thesis by force
  qed
next
  fix q assume "q \<in> (\<Union>n \<in> dom contents. hashed_files env s (path_Join env p n) (the (contents n)))"
  then obtain n c where c: "contents n = Some c" and "q \<in> hashed_files env s (path_Join env p n) c"
    by auto
  then obtain names e' info where
    q: "q = filepath_Join env (root s) (relative_path env (path_Join env p n) names)"
    and at: "entry_at c names = Some e'"
    and k: "Kind e' = EntryKind_File"
    and l: "os_Lstat env (filepath_Join env (root s) (relative_path env (path_Join env p n) names)) = Inr info"
    and r: "\<not> reusable s (relative_path env (path_Join env p n) names) info"
    unfolding hashed_files_def by blast
  from at c have "entry_at (Entry EntryKind_Directory x d t contents) (n # names) = Some e'"
    by simp
  moreover have "relative_path env p (n # names) = relative_path env (path_Join env p n) names"
    by simp
  ultimately show "q \<in> hashed_files env s p (Entry EntryKind_Directory x d t contents)"
    unfolding hashed_files_def using q k l r
    by (intro CollectI exI [of _ "n # names"] exI [of _ e'] exI [of _ info]) simp
qed

lemma scanner_symlink_trace:
  "scanner_symlink env s p st = (r, st') \<Longrightarrow>
    trace st' = Sys_Readlink (filepath_Join env (root s) p) # trace st"
  by (auto simp: scanner_symlink_def Let_def split: sum.splits if_splits)

lemma opens_content:
  assumes IH: "\<And>path st e st'. scanner_directory fuel env s path st = Some (Inr e, st') \<Longrightarrow>
      opens (trace st') = opens (trace st) \<union> hashed_files env s path e"
  shows "directory_content fuel env s path name st = Continue st' \<Longrightarrow>
      opens (trace st') = opens (trace st)"
    and "directory_content fuel env s path name st = Insert e st' \<Longrightarrow>
      opens (trace st') = opens (trace st) \<union> hashed_files env s (path_Join env path name) e"
proof -
  let ?p = "path_Join env path name"
  let ?st1 = "called (Sys_Lstat (filepath_Join env (root s) ?p)) st"
  show "opens (trace st') = opens (trace st)"
    if "directory_content fuel env s path name st = Continue st'"
    using that
    by (cases rule: directory_content_cases [of s env path name fuel st])
      (auto split: prod.splits sum.splits option.splits)
  show "opens (trace st') = opens (trace st) \<union> hashed_files env s ?p e"
    if out: "directory_content fuel env s path name st = Insert e st'"
  proof (cases rule: directory_content_cases [of s env path name fuel st])
    case (regular info)
    from regular(5) out have f: "scanner_file env s ?p info ?st1 = (Inr e, st')"
      by (auto split: prod.splits sum.splits)
    from scanner_file_Inr [OF f] have leaf: "Kind e = EntryKind_File" "Contents e = Map.empty"
      by simp_all
    show ?thesis
    proof (cases "reusable s ?p info")
      case True
      from scanner_file_trace_reuse [OF True, of env ?st1] f
      have "trace st' = trace ?st1" by simp
      with True regular(2) leaf show ?thesis
        by (simp add: hashed_files_leaf)
    next
      case False
      from scanner_file_trace_hash [OF False, of env ?st1] f
      have "trace st' = Sys_Open (filepath_Join env (root s) ?p) # trace ?st1" by simp
      with False regular(2) leaf show ?thesis
        by (simp add: hashed_files_leaf)
    qed
  next
    case (link info)
    from link(5) out have f: "scanner_symlink env s ?p ?st1 = (Inr e, st')"
      by (auto split: prod.splits sum.splits)
    from scanner_symlink_Inr [OF f] scanner_symlink_trace [OF f] show ?thesis
      by (simp add: hashed_files_leaf)
  next
    case (subdir info)
    from subdir(4) out have d: "scanner_directory fuel env s ?p ?st1 = Some (Inr e, st')"
      by (auto split: option.splits prod.splits sum.splits)
    from IH [OF d] show ?thesis by simp
  qed (use out in simp_all)
qed

lemma opens_loop:
  assumes IH: "\<And>path st e st'. scanner_directory fuel env s path st = Some (Inr e, st') \<Longrightarrow>
      opens (trace st') = opens (trace st) \<union> hashed_files env s path e"
  shows "directory_loop fuel env s path names contents st = Some (Inr contents', st') \<Longrightarrow>
    opens (trace st') = opens (trace st) \<union>
      (\<Union>n \<in> set names. case inserted fuel env s path n of
         None \<Rightarrow> {} | Some e \<Rightarrow> hashed_files env s (path_Join env path n) e)"
proof (induction names arbitrary: contents st)
  case Nil
  then show ?case by simp
next
  case (Cons name names)
  note loop = Cons.prems [unfolded directory_loop_Cons]
  show ?case
  proof (cases "directory_content fuel env s path name st")
    case (Continue st1)
    with loop have "directory_loop fuel env s path names contents st1 = Some (Inr contents', st')"
      by simp
    from Cons.IH [OF this] opens_content(1) [OF IH Continue] not_inserted_eq [OF Continue]
    show ?thesis by auto
  next
    case (Return err st1)
    with loop show ?thesis by simp
  next
    case (Insert e st2)
    with loop
    have "directory_loop fuel env s path names (contents(name \<mapsto> e)) st2 =
        Some (Inr contents', st')"
      by simp
    from Cons.IH [OF this] opens_content(2) [OF IH Insert] inserted_eq [OF Insert]
    show ?thesis by auto
  next
    case Unfinished
    with loop show ?thesis by simp
  qed
qed

lemma opens_scanner_directory:
  "scanner_directory fuel env s path st = Some (Inr e, st') \<Longrightarrow>
    opens (trace st') = opens (trace st) \<union> hashed_files env s path e"
proof (induction fuel arbitrary: path st e st')
  case 0
  then show ?case by simp
next
  case (Suc fuel)
  let ?st1 = "called (Sys_DirectoryContents (filepath_Join env (root s) path)) st"
  from Suc.prems obtain names contents where
    loop: "directory_loop fuel env s path names Map.empty ?st1 = Some (Inr contents, st')"
    and e: "e = Entry EntryKind_Directory False None [] contents"
    by (auto simp: Let_def split: option.splits sum.splits prod.splits)
  have c: "contents n =
      (if n \<in> set names \<and> inserted fuel env s path n \<noteq> None
       then inserted fuel env s path n else None)" for n
    using directory_loop_contents [OF loop, of n] by simp
  have "(\<Union>n \<in> set names. case inserted fuel env s path n of
         None \<Rightarrow> {} | Some e \<Rightarrow> hashed_files env s (path_Join env path n) e) =
        (\<Union>n \<in> dom contents. hashed_files env s (path_Join env path n) (the (contents n)))"
    (is "?L = ?R")
  proof (intro set_eqI iffI)
    fix q assume "q \<in> ?L"
    then obtain n c' where n: "n \<in> set names" "inserted fuel env s path n = Some c'"
      and q: "q \<in> hashed_files env s (path_Join env path n) c'"
      by (auto split: option.splits)
    from n have "contents n = Some c'" by (simp add: c)
    with q show "q \<in> ?R" by force
  next
    fix q assume "q \<in> ?R"
    then obtain n c' where n: "contents n = Some c'"
      and q: "q \<in> hashed_files env s (path_Join env path n) c'"
      by auto
    from n have "n \<in> set names" "inserted fuel env s path n = Some c'"
      unfolding c by (simp_all split: if_splits)
    with q show "q \<in> ?L" by force
  qed
  with opens_loop [OF Suc.IH loop] show ?case
    unfolding e hashed_files_directory by simp
qed

lemma file_record_digest:
  assumes v: "file_record env s p = Some v"
    and l: "os_Lstat env (filepath_Join env (root s) p) = Inr info"
  shows "(reusable s p info \<longrightarrow> (\<exists>cached. cache s p = Some cached \<and> ce_Digest v = ce_Digest cached)) \<and>
    (\<not> reusable s p info \<longrightarrow>
       (\<exists>data. os_Open env (filepath_Join env (root s) p) = Inr (data, None) \<and>
          ce_Digest v = hasher s data))"
proof -
  from v l obtain e where e: "fst (scanner_file env s p info initial) = Inr e"
    and d: "ce_Digest v = Digest e"
    by (auto simp: file_record_def split: if_splits sum.splits)
  show ?thesis
  proof (cases "reusable s p info")
    case True
    then obtain cached d' where c: "cache s p = Some cached" "ce_Digest cached = Some d'"
      and m: "cache_match s p info"
      by (auto simp: reusable_def)
    from scanner_file_reuse [OF c(1) m c(2), of env initial] e d c True show ?thesis
      by auto
  next
    case False
    from scanner_file_hash_digest [OF False e] d False show ?thesis by auto
  qed
qed

lemma example_warm_scan:
  "Scan 2 example_env ''/r'' example_hasher (Some example_warm_cache) [] 50 =
    Some (Inr (Some example_warm_snapshot, example_warm_newCache), example_warm_trace)"
proof -
  have "Scan (Suc (Suc 0)) example_env ''/r'' example_hasher (Some example_warm_cache) [] 50 =
    Some (Inr (Some example_warm_snapshot, example_warm_newCache), example_warm_trace)"
    by (simp add: Scan_def directory_loop_Cons directory_content_def
        scanner_file_def cache_match_def io_CopyBuffer_def content_kind_def called_def Let_def
        example_warm_snapshot_def example_warm_newCache_def example_warm_trace_def
        example_warm_cache_def example_defs mode_defs)
  then show ?thesis by (simp only: numeral_2_eq_2)
qed

lemma Scan_opens:
  assumes scan: "Scan fuel env root' hasher' cache' ignores ignoreSize' =
      Some (Inr (Some rootEntry, c), tr)"
    and ig: "newPathIgnorer env ignores = Inr ig"
  shows "opens tr =
    {filepath_Join env root' (relative_path env [] names) | names e info.
       entry_at rootEntry names = Some e \<and> Kind e = EntryKind_File \<and>
       (if names = [] then os_Stat env root'
        else os_Lstat env (filepath_Join env root' (relative_path env [] names))) = Inr info \<and>
       \<not> reusable \<lparr>root = root', hasher = hasher',
            cache = (case cache' of None \<Rightarrow> Map.empty | Some c \<Rightarrow> c),
            pathIgnorer = ig, ignoreSize = ignoreSize'\<rparr> (relative_path env [] names) info}"
  (is "_ = ?R")
proof -
  let ?s = "\<lparr>root = root', hasher = hasher',
        cache = (case cache' of None \<Rightarrow> Map.empty | Some c \<Rightarrow> c),
        pathIgnorer = ig, ignoreSize = ignoreSize'\<rparr>"
  let ?st = "called (Sys_Stat root') initial"
  show ?thesis
  proof (cases rule: Scan_root_kind [OF scan])
    case (1 ig' info)
    with ig have ig': "ig' = ig" by simp
    from Scan_root_directory [OF scan ig 1(2,3)] obtain r' st' where
      d: "scanner_directory fuel env ?s [] ?st = Some (r', st')"
      and r: "Inr (Some rootEntry, c) =
        (case r' of Inl err \<Rightarrow> Inl err | Inr e \<Rightarrow> Inr (Some e, newCache st'))"
      and tr: "tr = trace st'"
      by blast
    from r have "r' = Inr rootEntry" by (cases r') simp_all
    with d have d': "scanner_directory fuel env ?s [] ?st = Some (Inr rootEntry, st')" by simp
    from opens_scanner_directory [OF d'] tr
    have "opens tr = hashed_files env ?s [] rootEntry"
      by (simp add: initial_def)
    moreover have "names \<noteq> []" if "entry_at rootEntry names = Some e" "Kind e = EntryKind_File"
      for names e
      using that 1(4) by auto
    then have "hashed_files env ?s [] rootEntry = ?R"
      unfolding hashed_files_def
    proof (intro set_eqI iffI)
      fix q
      assume ne: "\<And>names e. entry_at rootEntry names = Some e \<Longrightarrow>
          Kind e = EntryKind_File \<Longrightarrow> names \<noteq> []"
      assume "q \<in> {filepath_Join env (root ?s) (relative_path env [] names) | names e' info.
         entry_at rootEntry names = Some e' \<and> Kind e' = EntryKind_File \<and>
         os_Lstat env (filepath_Join env (root ?s) (relative_path env [] names)) = Inr info \<and>
         \<not> reusable ?s (relative_path env [] names) info}"
      then obtain names e' info where
        q: "q = filepath_Join env root' (relative_path env [] names)"
        "entry_at rootEntry names = Some e'" "Kind e' = EntryKind_File"
        "os_Lstat env (filepath_Join env root' (relative_path env [] names)) = Inr info"
        "\<not> reusable ?s (relative_path env [] names) info"
        by auto
      from ne [OF q(2,3)] q show "q \<in> ?R"
        by (intro CollectI exI [of _ names] exI [of _ e'] exI [of _ info]) simp
    next
      fix q
      assume ne: "\<And>names e. entry_at rootEntry names = Some e \<Longrightarrow>
          Kind e = EntryKind_File \<Longrightarrow> names \<noteq> []"
      assume "q \<in> ?R"
      then obtain names e' info where
        q: "q = filepath_Join env root' (relative_path env [] names)"
        "entry_at rootEntry names = Some e'" "Kind e' = EntryKind_File"
        "(if names = [] then os_Stat env root'
          else os_Lstat env (filepath_Join env root' (relative_path env [] names))) = Inr info"
        "\<not> reusable ?s (relative_path env [] names) info"
        by auto
      from ne [OF q(2,3)] q
      show "q \<in> {filepath_Join env (root ?s) (relative_path env [] names) | names e' info.
         entry_at rootEntry names = Some e' \<and> Kind e' = EntryKind_File \<and>
         os_Lstat env (filepath_Join env (root ?s) (relative_path env [] names)) = Inr info \<and>
         \<not> reusable ?s (relative_path env [] names) info}"
        by (intro CollectI exI [of _ names] exI [of _ e'] exI [of _ info]) simp
    qed
    ultimately show ?thesis by simp
  next
    case (2 ig' info st')
    with ig have ig': "ig' = ig" by simp
    note f = 2(4) [unfolded ig']
    from scanner_file_Inr [OF f] have leaf: "Kind rootEntry = EntryKind_File"
      "Contents rootEntry = Map.empty" by simp_all
    have R: "?R = (if \<not> reusable ?s [] info then {filepath_Join env root' []} else {})"
      using leaf 2(2) by (auto simp: entry_at_leaf)
    show ?thesis
    proof (cases "reusable ?s [] info")
      case True
      from scanner_file_trace_reuse [OF True, of env ?st] f 2(6)
      have "tr = trace ?st" by simp
      with True R show ?thesis by (simp add: initial_def)
    next
      case False
      from scanner_file_trace_hash [OF False, of env ?st] f 2(6)
      have "tr = Sys_Open (filepath_Join env root' []) # trace ?st" by simp
      with False R show ?thesis by (simp add: initial_def)
    qed
  qed
qed

lemma Scan_digest:
  assumes scan: "Scan fuel env root' hasher' cache' ignores ignoreSize' =
      Some (Inr (Some rootEntry, c), tr)"
    and ig: "newPathIgnorer env ignores = Inr ig"
    and at: "entry_at rootEntry names = Some e" and k: "Kind e = EntryKind_File"
  defines "s \<equiv> \<lparr>root = root', hasher = hasher',
        cache = (case cache' of None \<Rightarrow> Map.empty | Some c \<Rightarrow> c),
        pathIgnorer = ig, ignoreSize = ignoreSize'\<rparr>"
  defines "p \<equiv> relative_path env [] names"
  shows "\<exists>info.
    (if names = [] then os_Stat env root' else os_Lstat env (filepath_Join env root' p)) = Inr info \<and>
    (reusable s p info \<longrightarrow> (\<exists>cached. cache s p = Some cached \<and> Digest e = ce_Digest cached)) \<and>
    (\<not> reusable s p info \<longrightarrow>
       (\<exists>data. os_Open env (filepath_Join env root' p) = Inr (data, None) \<and>
          Digest e = hasher' data))"
proof (cases rule: Scan_root_kind [OF scan])
  case (1 ig' info)
  with ig have ig': "ig' = ig" by simp
  from 1(4) at k have ne: "names \<noteq> []" by auto
  from Scan_files_ok [OF scan ig 1(2,3)] at k obtain i where
    l: "os_Lstat env (filepath_Join env root' p) = Inr i"
    and cp: "c p = Some \<lparr>ce_Mode = fi_Mode i, ce_ModificationTime = fi_ModTime i,
                  ce_Size = fi_Size i, ce_Digest = Digest e\<rparr>"
    unfolding files_ok_def p_def by fastforce
  from output_cache_record [OF scan ig 1(2,3)] cp
  have "file_record env s p = Some \<lparr>ce_Mode = fi_Mode i, ce_ModificationTime = fi_ModTime i,
                  ce_Size = fi_Size i, ce_Digest = Digest e\<rparr>"
    unfolding s_def by (auto simp: map_le_def dom_def)
  from file_record_digest [OF this, of i] l ne show ?thesis
    by (auto simp: s_def)
next
  case (2 ig' info st')
  with ig have ig': "ig' = ig" by simp
  note f = 2(4) [unfolded ig', folded s_def]
  from scanner_file_Inr [OF f] at have n: "names = []" "e = rootEntry"
    by (simp_all add: entry_at_leaf)
  then have p: "p = []" by (simp add: p_def)
  have "(reusable s [] info \<longrightarrow> (\<exists>cached. cache s [] = Some cached \<and> Digest rootEntry = ce_Digest cached)) \<and>
    (\<not> reusable s [] info \<longrightarrow>
       (\<exists>data. os_Open env (filepath_Join env (root s) []) = Inr (data, None) \<and>
          Digest rootEntry = hasher s data))"
  proof (cases "reusable s [] info")
    case True
    then obtain cached d' where c: "cache s [] = Some cached" "ce_Digest cached = Some d'"
      and m: "cache_match s [] info"
      by (auto simp: reusable_def)
    from scanner_file_reuse [OF c(1) m c(2), of env "called (Sys_Stat root') initial"] f c True
    show ?thesis by auto
  next
    case False
    from f have "fst (scanner_file env s [] info (called (Sys_Stat root') initial)) = Inr rootEntry"
      by simp
    from scanner_file_hash_digest [OF False this] False show ?thesis by auto
  qed
  with n p 2(2) show ?thesis by (auto simp: s_def)
qed

text \<open>
  Claim C1, as amended. For every File entry of the snapshot a scan returns, with
  \<open>info\<close> the stat the scan made of it (the stat of the root for the root itself, the
  lstat of the path below it): call it a hit when the input cache has an entry at the
  file's relative path whose type bits, size and modification time are those of \<open>info\<close>
  \<^emph>\<open>and whose digest is not nil\<close>. On a hit the entry's digest is the cached one. Without
  a hit (a mismatch, no entry, or a nil cached digest) the scan opens the file and the
  entry's digest is the hash of the bytes read. The scan opens a name only for a File
  entry without a hit; so where no other File entry of the snapshot has the file's name
  (the join of the root and the relative path), the file is not opened if and only if
  there is a hit.
\<close>

theorem cache_hit_reuse:
  fixes env :: environment and root' :: string and cache' :: "Cache option"
    and names :: "string list"
  defines "input \<equiv> (case cache' of None \<Rightarrow> Map.empty | Some c \<Rightarrow> c)"
  defines "hit \<equiv> \<lambda>path info. \<exists>cached d. input path = Some cached \<and>
      (ce_Mode cached AND ModeType) = (fi_Mode info AND ModeType) \<and>
      ce_Size cached = fi_Size info \<and>
      ce_ModificationTime cached = fi_ModTime info \<and>
      ce_Digest cached = Some d"
  defines "stat \<equiv> \<lambda>ns. if ns = [] then os_Stat env root'
      else os_Lstat env (filepath_Join env root' (relative_path env [] ns))"
  defines "p \<equiv> relative_path env [] names"
  assumes scan: "Scan fuel env root' hasher' cache' ignores ignoreSize' =
      Some (Inr (Some rootEntry, c), tr)"
    and at: "entry_at rootEntry names = Some e" and k: "Kind e = EntryKind_File"
  shows "(\<exists>info. stat names = Inr info \<and>
      (hit p info \<longrightarrow> (\<exists>cached. input p = Some cached \<and> Digest e = ce_Digest cached)) \<and>
      (\<not> hit p info \<longrightarrow>
         Sys_Open (filepath_Join env root' p) \<in> set tr \<and>
         (\<exists>data. os_Open env (filepath_Join env root' p) = Inr (data, None) \<and>
            Digest e = hasher' data)) \<and>
      ((\<forall>names' e'. entry_at rootEntry names' = Some e' \<longrightarrow> Kind e' = EntryKind_File \<longrightarrow>
          filepath_Join env root' (relative_path env [] names') = filepath_Join env root' p \<longrightarrow>
          relative_path env [] names' = p) \<longrightarrow>
         (hit p info \<longleftrightarrow> Sys_Open (filepath_Join env root' p) \<notin> set tr))) \<and>
    (\<forall>name. Sys_Open name \<in> set tr \<longrightarrow>
       (\<exists>names' e' info'. entry_at rootEntry names' = Some e' \<and> Kind e' = EntryKind_File \<and>
          name = filepath_Join env root' (relative_path env [] names') \<and>
          stat names' = Inr info' \<and> \<not> hit (relative_path env [] names') info'))"
proof -
  from Scan_ignorer [OF scan] obtain ig where ig: "newPathIgnorer env ignores = Inr ig" .
  define s where "s = \<lparr>root = root', hasher = hasher', cache = input,
      pathIgnorer = ig, ignoreSize = ignoreSize'\<rparr>"
  have hr: "reusable s q i \<longleftrightarrow> hit q i" for q i
    unfolding hit_def reusable_def cache_match_def s_def
    by (auto split: option.splits)
  note op = Scan_opens [OF scan ig, folded input_def, folded s_def]
  have B: "\<exists>names' e' info'. entry_at rootEntry names' = Some e' \<and> Kind e' = EntryKind_File \<and>
          name = filepath_Join env root' (relative_path env [] names') \<and>
          stat names' = Inr info' \<and> \<not> hit (relative_path env [] names') info'"
    if "Sys_Open name \<in> set tr" for name
  proof -
    from that have "name \<in> opens tr" by (simp add: opens_def)
    then show ?thesis unfolding op stat_def hr by blast
  qed
  from Scan_digest [OF scan ig at k, folded input_def, folded s_def, folded p_def]
  obtain info where info: "stat names = Inr info"
    and reuse: "reusable s p info \<Longrightarrow> \<exists>cached. cache s p = Some cached \<and> Digest e = ce_Digest cached"
    and hash: "\<not> reusable s p info \<Longrightarrow>
       \<exists>data. os_Open env (filepath_Join env root' p) = Inr (data, None) \<and> Digest e = hasher' data"
    unfolding stat_def p_def by blast
  have opened: "Sys_Open (filepath_Join env root' p) \<in> set tr" if "\<not> hit p info"
  proof -
    from that at k info have "filepath_Join env root' p \<in> opens tr"
      unfolding op stat_def p_def hr
      by (intro CollectI exI [of _ names] exI [of _ e] exI [of _ info]) simp
    then show ?thesis by (simp add: opens_def)
  qed
  have closed: "\<not> hit p info"
    if inj: "\<forall>names' e'. entry_at rootEntry names' = Some e' \<longrightarrow>
          Kind e' = EntryKind_File \<longrightarrow>
          filepath_Join env root' (relative_path env [] names') = filepath_Join env root' p \<longrightarrow>
          relative_path env [] names' = p"
      and o: "Sys_Open (filepath_Join env root' p) \<in> set tr"
  proof -
    from B [OF o] obtain names' e' info' where
      a: "entry_at rootEntry names' = Some e'" "Kind e' = EntryKind_File"
      and j: "filepath_Join env root' p = filepath_Join env root' (relative_path env [] names')"
      and i: "stat names' = Inr info'" and n: "\<not> hit (relative_path env [] names') info'"
      by blast
    from inj a j have q: "relative_path env [] names' = p" by metis
    have "names' = [] \<longleftrightarrow> names = []"
    proof (cases rule: Scan_root_kind [OF scan])
      case (1 ig' rinfo)
      with a at k show ?thesis by auto
    next
      case (2 ig' rinfo st')
      from scanner_file_Inr [OF 2(4)] a at show ?thesis
        by (simp add: entry_at_leaf)
    qed
    with i info q have "info' = info"
      unfolding stat_def p_def by (auto split: if_splits)
    with n q show ?thesis by simp
  qed
  have "hit p info \<longrightarrow> (\<exists>cached. input p = Some cached \<and> Digest e = ce_Digest cached)"
    using reuse hr by (auto simp: s_def)
  moreover have "\<not> hit p info \<longrightarrow>
         Sys_Open (filepath_Join env root' p) \<in> set tr \<and>
         (\<exists>data. os_Open env (filepath_Join env root' p) = Inr (data, None) \<and>
            Digest e = hasher' data)"
    using hash opened hr by auto
  moreover have "(\<forall>names' e'. entry_at rootEntry names' = Some e' \<longrightarrow> Kind e' = EntryKind_File \<longrightarrow>
          filepath_Join env root' (relative_path env [] names') = filepath_Join env root' p \<longrightarrow>
          relative_path env [] names' = p) \<longrightarrow>
         (hit p info \<longleftrightarrow> Sys_Open (filepath_Join env root' p) \<notin> set tr)"
    using opened closed by blast
  ultimately show ?thesis using info B by blast
qed

text \<open>
  The theorem at the file \<open>a\<close> of the second scan of \<open>/r\<close>: the input cache has its
  type bits, time and size and the digest 9, which the snapshot reuses; \<open>/r/a\<close> is not
  opened, while \<open>/r/d/x\<close>, whose cached time is older, is.
\<close>

theorem cache_hit_reuse_witness:
  "Scan 2 example_env ''/r'' example_hasher (Some example_warm_cache) [] 50 =
     Some (Inr (Some example_warm_snapshot, example_warm_newCache), example_warm_trace) \<and>
   entry_at example_warm_snapshot [''a''] =
     Some (Entry EntryKind_File True (Some [9]) [] Map.empty) \<and>
   os_Lstat example_env ''/r/a'' = Inr \<lparr>fi_Mode = 0x1ED, fi_ModTime = 5, fi_Size = 2\<rparr> \<and>
   example_warm_cache ''a'' =
     Some \<lparr>ce_Mode = 0x1A4, ce_ModificationTime = 5, ce_Size = 2, ce_Digest = Some [9]\<rparr> \<and>
   Sys_Open ''/r/a'' \<notin> set example_warm_trace \<and>
   Sys_Open ''/r/d/x'' \<in> set example_warm_trace"
proof -
  have at: "entry_at example_warm_snapshot [''a''] =
     Some (Entry EntryKind_File True (Some [9]) [] Map.empty)"
    by (simp add: example_warm_snapshot_def)
  have k: "Kind (Entry EntryKind_File True (Some [9]) [] Map.empty) = EntryKind_File"
    by simp
  have l: "os_Lstat example_env ''/r/a'' = Inr \<lparr>fi_Mode = 0x1ED, fi_ModTime = 5, fi_Size = 2\<rparr>"
    by (simp add: example_defs)
  have c: "example_warm_cache ''a'' =
     Some \<lparr>ce_Mode = 0x1A4, ce_ModificationTime = 5, ce_Size = 2, ce_Digest = Some [9]\<rparr>"
    by (simp add: example_warm_cache_def)
  have m: "((0x1A4 :: 32 word) AND ModeType) = (0x1ED AND ModeType)"
    by (simp add: mode_defs)
  have pj: "path_Join example_env [] ''a'' = ''a''"
    and fj: "filepath_Join example_env ''/r'' ''a'' = ''/r/a''"
    by (simp_all add: example_defs)
  have inj: "\<forall>q. filepath_Join example_env ''/r'' q = ''/r/a'' \<longrightarrow> q = ''a''"
    by (simp add: example_defs)
  from cache_hit_reuse [OF example_warm_scan at k, THEN conjunct1]
  obtain info where i: "os_Lstat example_env ''/r/a'' = Inr info"
    and iff: "(\<forall>names' e'. entry_at example_warm_snapshot names' = Some e' \<longrightarrow>
          Kind e' = EntryKind_File \<longrightarrow>
          filepath_Join example_env ''/r'' (relative_path example_env [] names') = ''/r/a'' \<longrightarrow>
          relative_path example_env [] names' = ''a'') \<longrightarrow>
      ((\<exists>cached d. example_warm_cache ''a'' = Some cached \<and>
          (ce_Mode cached AND ModeType) = (fi_Mode info AND ModeType) \<and>
          ce_Size cached = fi_Size info \<and>
          ce_ModificationTime cached = fi_ModTime info \<and>
          ce_Digest cached = Some d) \<longleftrightarrow>
       Sys_Open ''/r/a'' \<notin> set example_warm_trace)"
    unfolding relative_path_simps pj fj by auto
  from i l have info: "info = \<lparr>fi_Mode = 0x1ED, fi_ModTime = 5, fi_Size = 2\<rparr>" by simp
  have "\<exists>cached d. example_warm_cache ''a'' = Some cached \<and>
          (ce_Mode cached AND ModeType) = (fi_Mode info AND ModeType) \<and>
          ce_Size cached = fi_Size info \<and>
          ce_ModificationTime cached = fi_ModTime info \<and>
          ce_Digest cached = Some d"
    using c m by (simp add: info)
  moreover from inj
  have "\<forall>names' e'. entry_at example_warm_snapshot names' = Some e' \<longrightarrow>
          Kind e' = EntryKind_File \<longrightarrow>
          filepath_Join example_env ''/r'' (relative_path example_env [] names') = ''/r/a'' \<longrightarrow>
          relative_path example_env [] names' = ''a''"
    by blast
  ultimately have "Sys_Open ''/r/a'' \<notin> set example_warm_trace"
    using iff by blast
  moreover have "Sys_Open ''/r/d/x'' \<in> set example_warm_trace"
    by (simp add: example_warm_trace_def)
  ultimately show ?thesis using example_warm_scan at l c by simp
qed

text \<open>
  Claim C1 as stated fails: the input cache has an entry for the root file \<open>/f\<close> with
  the type bits, time and size of its stat, and a nil digest; the scan opens and hashes
  the file all the same.
\<close>

theorem cache_match_nil_digest_counterexample:
  "cache_match (example_scanner example_nil_digest_cache) [] example_info \<and>
   os_Stat example_env ''/f'' = Inr example_info \<and>
   Scan 0 example_env ''/f'' example_hasher (Some example_nil_digest_cache) [] 0 =
     Some (Inr (Some (Entry EntryKind_File False (Some [5, 4]) [] Map.empty),
                [[] \<mapsto> \<lparr>ce_Mode = 0x1A4, ce_ModificationTime = 7, ce_Size = 2,
                           ce_Digest = Some [5, 4]\<rparr>]),
           [Sys_Open ''/f'', Sys_Stat ''/f''])"
  by (simp add: Scan_def scanner_file_def cache_match_def io_CopyBuffer_def called_def Let_def
      example_defs mode_defs)

section \<open>Properties of URLs\<close>

subsection \<open>Decimal numbers and splitting\<close>

declare decimal.simps [simp del]

lemma digit_char_is_digit: "d < 10 \<Longrightarrow> is_digit (digit_char d)"
proof -
  assume "d < 10"
  then have "d \<in> {0, 1, 2, 3, 4, 5, 6, 7, 8, 9}" by auto
  then show ?thesis
    by (auto simp: is_digit_def digit_char_def)
qed

lemma digit_char_value: "d < 10 \<Longrightarrow> of_char (digit_char d) - 48 = d"
proof -
  assume "d < 10"
  then have "d \<in> {0, 1, 2, 3, 4, 5, 6, 7, 8, 9}" by auto
  then show ?thesis
    by (auto simp: digit_char_def)
qed

lemma is_digit_not_separator:
  "is_digit c \<Longrightarrow> c \<noteq> CHR '':'' \<and> c \<noteq> CHR ''@'' \<and> c \<noteq> CHR ''/''"
  by (auto simp: is_digit_def)

lemma decimal_not_empty: "decimal n \<noteq> []"
  by (subst decimal.simps) simp

lemma decimal_digits: "c \<in> set (decimal n) \<Longrightarrow> is_digit c"
proof (induction n rule: decimal.induct)
  case (1 n)
  show ?case
  proof (cases "n < 10")
    case True
    with "1.prems" show ?thesis
      by (subst (asm) decimal.simps) (simp add: digit_char_is_digit)
  next
    case False
    with "1.prems" "1.IH" show ?thesis
      by (subst (asm) decimal.simps) (auto simp: digit_char_is_digit)
  qed
qed

lemma parse_decimal_snoc:
  "parse_decimal (cs @ [c]) = 10 * parse_decimal cs + (of_char c - 48)"
  by (simp add: parse_decimal_def)

lemma parse_decimal_decimal: "parse_decimal (decimal n) = n"
proof (induction n rule: decimal.induct)
  case (1 n)
  show ?case
  proof (cases "n < 10")
    case True
    then show ?thesis
      by (subst decimal.simps) (simp add: parse_decimal_def digit_char_value)
  next
    case False
    with "1.IH" show ?thesis
      by (subst decimal.simps) (simp add: parse_decimal_snoc digit_char_value)
  qed
qed

lemma split_first_None: "split_first d xs = None \<longleftrightarrow> d \<notin> set xs"
  by (induction xs) auto

lemma split_first_Some:
  "split_first d xs = Some (a, b) \<longleftrightarrow> xs = a @ d # b \<and> d \<notin> set a"
proof (induction xs arbitrary: a)
  case Nil
  show ?case by simp
next
  case (Cons c cs)
  show ?case
  proof (cases "c = d")
    case True
    then show ?thesis by (cases a) auto
  next
    case False
    with Cons show ?thesis by (cases a) auto
  qed
qed

lemma split_first_append:
  "d \<notin> set a \<Longrightarrow> split_first d (a @ d # b) = Some (a, b)"
  by (simp add: split_first_Some)

lemma split_scheme_Cons_None:
  "split_scheme (c # cs) = None \<longleftrightarrow> take 3 (c # cs) \<noteq> ''://'' \<and> split_scheme cs = None"
  by simp

lemma split_scheme_no_slash: "CHR ''/'' \<notin> set xs \<Longrightarrow> split_scheme xs = None"
proof (induction xs)
  case Nil
  show ?case by simp
next
  case (Cons c cs)
  then have "take 3 (c # cs) \<noteq> ''://''"
    by (cases cs) auto
  with Cons show ?case by simp
qed

lemma split_scheme_append1: "split_scheme (a @ b) = None \<Longrightarrow> split_scheme b = None"
  by (induction a) (auto split: if_splits)

lemma take3_append:
  "take 3 ((x # xs) @ ys) = ''://'' \<Longrightarrow> take 3 (x # xs) \<noteq> ''://'' \<Longrightarrow>
    (xs = [] \<or> (\<exists>y. xs = [y])) \<and> ys \<noteq> []"
  by (cases xs; cases "tl xs"; cases ys) auto

lemma split_scheme_append2: "split_scheme (a @ b) = None \<Longrightarrow> split_scheme a = None"
proof (induction a)
  case Nil
  show ?case by simp
next
  case (Cons x xs)
  from Cons.prems have 1: "take 3 ((x # xs) @ b) \<noteq> ''://''" and 2: "split_scheme (xs @ b) = None"
    by (auto split: if_splits)
  have "take 3 (x # xs) \<noteq> ''://''"
  proof
    assume "take 3 (x # xs) = ''://''"
    then have "take 3 ((x # xs) @ b) = ''://''"
      by (cases xs; cases "tl xs") auto
    with 1 show False by simp
  qed
  with Cons.IH [OF 2] show ?case by simp
qed

lemma split_scheme_join:
  assumes "split_scheme xs = None" and "split_scheme (c # ys) = None" and "c \<noteq> CHR ''/''"
  shows "split_scheme (xs @ c # ys) = None"
  using assms(1)
proof (induction xs)
  case Nil
  with assms(2) show ?case by simp
next
  case (Cons x xs)
  from Cons.prems have 1: "take 3 (x # xs) \<noteq> ''://''" and 2: "split_scheme xs = None"
    by (auto split: if_splits)
  have "take 3 ((x # xs) @ c # ys) \<noteq> ''://''"
  proof
    assume a: "take 3 ((x # xs) @ c # ys) = ''://''"
    from take3_append [OF a 1] have "xs = [] \<or> (\<exists>y. xs = [y])" by simp
    with a assms(3) show False by auto
  qed
  with Cons.IH [OF 2] show ?case by simp
qed

subsection \<open>Parsing what Format prints\<close>

text \<open>
  What it means for \<open>Parse\<close> to return an SSH URL, field by field, and what it returns
  otherwise; then the two directions of the round trip for SSH URLs.
\<close>

lemma Parse_SSH:
  "Parse raw = Some u \<and> Protocol u = Protocol_SSH \<longleftrightarrow>
    raw \<noteq> [] \<and> split_scheme raw = None \<and>
    (\<exists>tail. split_first CHR '':'' (snd (user_split raw)) = Some (Hostname u, tail) \<and>
       port_and_path tail = (Port u, Path u)) \<and>
    CHR ''/'' \<notin> set (Hostname u) \<and> Hostname u \<noteq> [] \<and>
    Username u = fst (user_split raw) \<and> Protocol u = Protocol_SSH"
  by (cases u)
    (auto simp: Parse_def user_split_def Let_def split: option.splits prod.splits if_splits)

lemma Parse_not_SSH:
  "Parse raw = Some u \<Longrightarrow> Protocol u \<noteq> Protocol_SSH \<Longrightarrow>
    (Protocol u = Protocol_Local \<or> Protocol u = Protocol_Custom) \<and> Path u = raw"
  by (auto simp: Parse_def Let_def split: option.splits prod.splits if_splits)

lemma user_split_cases:
  obtains "CHR ''@'' \<notin> set raw" "user_split raw = ([], raw)"
  | a r where "raw = a @ CHR ''@'' # r" "CHR ''@'' \<notin> set a" "user_split raw = (a, r)"
proof (cases "split_first CHR ''@'' raw")
  case None
  then have "CHR ''@'' \<notin> set raw" by (simp add: split_first_None)
  moreover from None have "user_split raw = ([], raw)" by (simp add: user_split_def)
  ultimately show ?thesis by (rule that(1))
next
  case (Some p)
  obtain a r where p: "p = (a, r)" by (cases p)
  with Some have "raw = a @ CHR ''@'' # r" "CHR ''@'' \<notin> set a"
    by (simp_all add: split_first_Some)
  moreover from Some p have "user_split raw = (a, r)" by (simp add: user_split_def)
  ultimately show ?thesis by (rule that(2))
qed

lemma port_and_path_cases:
  assumes "port_and_path tail = (port, path)"
  obtains "port = 0" "path = tail"
  | digits where "tail = digits @ CHR '':'' # path" "parse_decimal digits \<le> 65535"
      "port = word_of_nat (parse_decimal digits)"
  using assms
  by (auto simp: port_and_path_def split_first_Some split: option.splits prod.splits if_splits)

lemma port_and_path_decimal:
  assumes "n \<le> 65535"
  shows "port_and_path (decimal n @ CHR '':'' # path) = (word_of_nat n, path)"
proof -
  have "CHR '':'' \<notin> set (decimal n)"
    using decimal_digits is_digit_not_separator by blast
  then have "split_first CHR '':'' (decimal n @ CHR '':'' # path) = Some (decimal n, path)"
    by (rule split_first_append)
  with assms show ?thesis
    by (simp add: port_and_path_def decimal_not_empty decimal_digits parse_decimal_decimal)
qed

lemma port_unat:
  assumes "n \<le> 65535"
  shows "unat (word_of_nat n :: 32 word) = n"
  using assms by (simp add: unat_of_nat)


lemma formatSSH_parts:
  "formatSSH u =
    (if Username u \<noteq> [] then Username u @ CHR ''@'' # Hostname u else Hostname u) @
    CHR '':'' #
    (if Port u \<noteq> 0 then decimal (unat (Port u)) @ CHR '':'' # Path u else Path u)"
  by (simp add: formatSSH_def Let_def)

lemma decimal_no_separator:
  "CHR '':'' \<notin> set (decimal n)" "CHR ''@'' \<notin> set (decimal n)" "CHR ''/'' \<notin> set (decimal n)"
  using decimal_digits is_digit_not_separator by blast+

lemma round_trip_SSH:
  assumes p: "Parse raw = Some u" and ssh: "Protocol u = Protocol_SSH"
    and good: "round_trips u"
  shows "Parse (formatSSH u) = Some u"
proof -
  define user host port path where "user = Username u" and "host = Hostname u"
    and "port = Port u" and "path = Path u"
  define tail' where
    "tail' = (if port \<noteq> 0 then decimal (unat port) @ CHR '':'' # path else path)"
  define hp' where "hp' = host @ CHR '':'' # tail'"
  from p ssh Parse_SSH [of raw u] obtain tail where
    ns: "split_scheme raw = None"
    and sp: "split_first CHR '':'' (snd (user_split raw)) = Some (host, tail)"
    and pp: "port_and_path tail = (port, path)"
    and host: "CHR ''/'' \<notin> set host" "host \<noteq> []"
    and us: "user = fst (user_split raw)"
    unfolding user_def host_def port_def path_def by blast
  from sp have hp: "snd (user_split raw) = host @ CHR '':'' # tail" "CHR '':'' \<notin> set host"
    by (simp_all add: split_first_Some)
  have t: "formatSSH u = (if user \<noteq> [] then user @ CHR ''@'' # hp' else hp')"
    unfolding formatSSH_parts hp'_def tail'_def user_def host_def port_def path_def by simp
  \<comment> \<open>the user\<close>
  have user: "CHR ''@'' \<notin> set user \<and> split_scheme user = None"
  proof (cases raw rule: user_split_cases)
    case 1
    with us show ?thesis by simp
  next
    case (2 a r)
    with us have "user = a" by simp
    with 2 ns split_scheme_append2 [of a "CHR ''@'' # r"] show ?thesis by simp
  qed
  \<comment> \<open>the path follows a colon in the input as well\<close>
  have "\<exists>x. raw = x @ CHR '':'' # path"
  proof -
    have "\<exists>y. snd (user_split raw) = y @ CHR '':'' # path"
    proof (cases rule: port_and_path_cases [OF pp])
      case 1
      with hp(1) show ?thesis by blast
    next
      case (2 digits)
      with hp(1) have "snd (user_split raw) = (host @ CHR '':'' # digits) @ CHR '':'' # path"
        by simp
      then show ?thesis by blast
    qed
    then obtain y where y: "snd (user_split raw) = y @ CHR '':'' # path" by blast
    show ?thesis
    proof (cases raw rule: user_split_cases)
      case 1
      with y show ?thesis by auto
    next
      case (2 a r)
      with y have "raw = (a @ CHR ''@'' # y) @ CHR '':'' # path" by simp
      then show ?thesis by blast
    qed
  qed
  with ns have ns_path: "split_scheme (CHR '':'' # path) = None"
    using split_scheme_append1 by blast
  \<comment> \<open>the port\<close>
  have pp': "port_and_path tail' = (port, path)"
  proof (cases "port = 0")
    case True
    with good ssh show ?thesis
      by (simp add: tail'_def round_trips_def port_def path_def)
  next
    case False
    with pp obtain digits where "parse_decimal digits \<le> 65535"
      "port = word_of_nat (parse_decimal digits)"
      by (cases rule: port_and_path_cases) auto
    then have "unat port \<le> 65535" by (simp add: port_unat)
    from port_and_path_decimal [OF this, of path] False show ?thesis
      by (simp add: tail'_def)
  qed
  \<comment> \<open>no scheme\<close>
  have ns_tail: "split_scheme (CHR '':'' # tail') = None"
  proof (cases "port = 0")
    case True
    with ns_path show ?thesis by (simp add: tail'_def)
  next
    case False
    have "split_scheme (CHR '':'' # decimal (unat port)) = None"
      by (rule split_scheme_no_slash) (simp add: decimal_no_separator)
    from split_scheme_join [OF this ns_path] False show ?thesis
      by (simp add: tail'_def)
  qed
  have ns_hp: "split_scheme hp' = None"
    unfolding hp'_def
    by (rule split_scheme_join [OF split_scheme_no_slash [OF host(1)] ns_tail]) simp
  have ns_t: "split_scheme (formatSSH u) = None"
  proof (cases "user = []")
    case True
    with ns_hp t show ?thesis by simp
  next
    case False
    have "split_scheme (CHR ''@'' # hp') = None"
      using ns_hp by (cases hp') auto
    from split_scheme_join [OF conjunct2 [OF user] this] False t show ?thesis by simp
  qed
  \<comment> \<open>the user is read back\<close>
  have us': "user_split (formatSSH u) = (user, hp')"
  proof (cases "user = []")
    case True
    with good ssh have "CHR ''@'' \<notin> set host \<union> set path"
      by (simp add: round_trips_def user_def host_def path_def)
    then have "CHR ''@'' \<notin> set hp'"
      by (simp add: hp'_def tail'_def decimal_no_separator)
    with True t show ?thesis
      by (simp add: user_split_def split_first_None [THEN iffD2])
  next
    case False
    with t user show ?thesis
      by (simp add: user_split_def split_first_append)
  qed
  have sp': "split_first CHR '':'' hp' = Some (host, tail')"
    unfolding hp'_def using hp(2) by (rule split_first_append)
  have "formatSSH u \<noteq> []"
    using t by (simp add: hp'_def)
  with ns_t us' sp' pp' host ssh show ?thesis
    using Parse_SSH [of "formatSSH u" u]
    unfolding user_def host_def port_def path_def by auto
qed


lemma round_trip_SSH_only_if:
  assumes p: "Parse (formatSSH u) = Some u" and ssh: "Protocol u = Protocol_SSH"
  shows "round_trips u"
proof -
  define user host port path where "user = Username u" and "host = Hostname u"
    and "port = Port u" and "path = Path u"
  define rest where
    "rest = (if port \<noteq> 0 then decimal (unat port) @ CHR '':'' # path else path)"
  let ?t = "formatSSH u"
  from p ssh Parse_SSH [of ?t u] obtain tail where
    sp: "split_first CHR '':'' (snd (user_split ?t)) = Some (host, tail)"
    and pp: "port_and_path tail = (port, path)"
    and host: "host \<noteq> []"
    and us: "user = fst (user_split ?t)"
    unfolding user_def host_def port_def path_def by blast
  from sp have hp: "snd (user_split ?t) = host @ CHR '':'' # tail" "CHR '':'' \<notin> set host"
    by (simp_all add: split_first_Some)
  have t: "?t = (if user \<noteq> [] then user @ CHR ''@'' # host else host) @ CHR '':'' # rest"
    unfolding formatSSH_parts rest_def user_def host_def port_def path_def by simp
  have a: "snd (user_split ?t) = host @ CHR '':'' # rest \<and> (user = [] \<longrightarrow> CHR ''@'' \<notin> set ?t)"
  proof (cases ?t rule: user_split_cases)
    case 1
    with us t show ?thesis by auto
  next
    case (2 a r)
    with us have ua: "user = a" by simp
    show ?thesis
    proof (cases "user = []")
      case False
      with t 2(1) ua have "r = host @ CHR '':'' # rest" by simp
      with 2(3) False show ?thesis by simp
    next
      case True
      with t 2(1) ua have eq: "CHR ''@'' # r = host @ CHR '':'' # rest" by simp
      with host obtain h where h: "host = CHR ''@'' # h" "r = h @ CHR '':'' # rest"
        by (cases host) auto
      from hp(1) 2(3) have "r = host @ CHR '':'' # tail" by simp
      with h have "h @ CHR '':'' # rest = (CHR ''@'' # h) @ CHR '':'' # tail" by simp
      moreover from hp(2) h(1) have "CHR '':'' \<notin> set h" by simp
      then have "split_first CHR '':'' (h @ CHR '':'' # rest) = Some (h, rest)"
        by (rule split_first_append)
      moreover from hp(2) h(1)
      have "split_first CHR '':'' ((CHR ''@'' # h) @ CHR '':'' # tail) = Some (CHR ''@'' # h, tail)"
        by (intro split_first_append) simp
      ultimately show ?thesis by simp
    qed
  qed
  with hp(1) have tail: "tail = rest" by simp
  have "port_and_path path = (0, path)" if "port = 0"
    using that pp tail by (simp add: rest_def)
  moreover have "CHR ''@'' \<notin> set host \<union> set path" if "user = []"
  proof -
    from a that have "CHR ''@'' \<notin> set ?t" by simp
    with that show ?thesis unfolding t rest_def by (auto split: if_splits)
  qed
  ultimately show ?thesis
    by (simp add: round_trips_def user_def host_def port_def path_def)
qed

text \<open>
  Claim C8, as amended. Format renders a Local URL as its bare path, an SSH URL as
  \<open>[user@]host[:port]:path\<close> with the port left out when it is 0, and a Custom URL as the
  original string it keeps as its path. For every URL \<open>u\<close> that \<open>Parse\<close> returns for some
  input, \<open>Format u\<close> is defined, and \<open>Parse (Format u)\<close> succeeds with \<open>u\<close> exactly when
  \<open>round_trips u\<close> holds: always for a Local or Custom URL; for an SSH URL when a URL
  without a user has no \<open>@\<close> in its host and its path, and the path of a URL with port 0
  does not itself begin with a port (digits of a value up to 65535, then a colon).
\<close>

theorem parse_format_round_trip:
  assumes "Parse raw = Some u"
  shows "\<exists>t. Format u = Some t \<and> (Parse t = Some u \<longleftrightarrow> round_trips u)"
proof (cases "Protocol u = Protocol_SSH")
  case True
  with round_trip_SSH [OF assms True] round_trip_SSH_only_if [OF _ True] show ?thesis
    by (auto simp: Format_def)
next
  case False
  from Parse_not_SSH [OF assms False] assms False show ?thesis
    by (auto simp: Format_def formatLocal_def formatCustom_def round_trips_def)
qed

theorem parse_format_round_trip_witness:
  "Parse ''user@host:0022:path'' =
     Some \<lparr>Protocol = Protocol_SSH, Username = ''user'', Hostname = ''host'', Port = 22,
           Path = ''path''\<rparr> \<and>
   Format \<lparr>Protocol = Protocol_SSH, Username = ''user'', Hostname = ''host'', Port = 22,
           Path = ''path''\<rparr> = Some ''user@host:22:path'' \<and>
   Parse ''user@host:22:path'' =
     Some \<lparr>Protocol = Protocol_SSH, Username = ''user'', Hostname = ''host'', Port = 22,
           Path = ''path''\<rparr>"
proof -
  let ?u = "\<lparr>Protocol = Protocol_SSH, Username = ''user'', Hostname = ''host'', Port = 22,
           Path = ''path''\<rparr>"
  have digits: "parse_decimal ''0022'' = 22" "parse_decimal ''22'' = 22"
    by (simp_all add: parse_decimal_def)
  have p: "Parse ''user@host:0022:path'' = Some ?u"
    by (simp add: Parse_def user_split_def port_and_path_def is_digit_def digits)
  have "decimal 22 = ''22''"
    by (simp add: decimal.simps [of 22] decimal.simps [of 2] digit_char_def)
  then have f: "Format ?u = Some ''user@host:22:path''"
    by (simp add: Format_def formatSSH_def)
  have g: "round_trips ?u"
    by (simp add: round_trips_def)
  from parse_format_round_trip [OF p] f g
  have "Parse ''user@host:22:path'' = Some ?u" by simp
  with p f show ?thesis by simp
qed

text \<open>
  The claim as first stated (every parsed URL is parsed back from its text) fails for an
  SSH URL with port 0 whose path begins with digits and a colon: Format leaves the port 0
  out, and the beginning of the path is then read as the port.
\<close>

theorem round_trip_port_zero_counterexample:
  "Parse ''host:0:22:x'' =
     Some \<lparr>Protocol = Protocol_SSH, Username = [], Hostname = ''host'', Port = 0,
           Path = ''22:x''\<rparr> \<and>
   Format \<lparr>Protocol = Protocol_SSH, Username = [], Hostname = ''host'', Port = 0,
           Path = ''22:x''\<rparr> = Some ''host:22:x'' \<and>
   Parse ''host:22:x'' =
     Some \<lparr>Protocol = Protocol_SSH, Username = [], Hostname = ''host'', Port = 22,
           Path = ''x''\<rparr>"
proof -
  have digits: "parse_decimal ''0'' = 0" "parse_decimal ''22'' = 22"
    by (simp_all add: parse_decimal_def)
  show ?thesis
    by (simp add: Parse_def user_split_def port_and_path_def is_digit_def digits
        Format_def formatSSH_def)
qed

end
